theory Spec2Isabelle
  imports Main "HOL-Library.Sublist"
begin

section \<open>The substring extraction utility (utils/getString.js)\<close>

text \<open>
  JavaScript strings are sequences of code units; they are modelled as lists, and
  every definition of this section is polymorphic in the type of the units.

  \<open>split s sep\<close> is \<^verbatim>\<open>s.split(sep)\<close> for a string separator and no limit, as
  ECMAScript defines it: an empty separator cuts the text into its units (and the empty
  text into no piece at all), any other separator cuts it at each occurrence found
  scanning from the left, occurrences not overlapping.  \<open>splitFrom\<close> is the scanning
  loop for a non-empty separator: \<open>piece\<close> holds the units read since the last cut.
  Its first branch is never reached from \<open>split\<close>; it lets the recursion terminate on
  every argument.
\<close>

function splitFrom :: "'a list \<Rightarrow> 'a list \<Rightarrow> 'a list \<Rightarrow> 'a list list" where
  "splitFrom sep piece s =
     (if sep = [] then []
      else if s = [] then [piece]
      else if prefix sep s then piece # splitFrom sep [] (drop (length sep) s)
      else splitFrom sep (piece @ [hd s]) (tl s))"
  by pat_completeness auto
termination
  by (relation "measure (\<lambda>(sep, piece, s). length s)") auto

definition split :: "'a list \<Rightarrow> 'a list \<Rightarrow> 'a list list" where
  "split s sep = (if sep = [] then map (\<lambda>c. [c]) s else splitFrom sep [] s)"

text \<open>
  What \<^verbatim>\<open>getString\<close> returns: a string, the boolean \<^verbatim>\<open>false\<close> of its
  \<^verbatim>\<open>catch\<close> branch, or \<^verbatim>\<open>undefined\<close> (index 0 of an empty array).
\<close>

datatype 'a extracted = Text "'a list" | JsFalse | JsUndefined

text \<open>
  \<^verbatim>\<open>
  function getString(string, left, right) {
      try { return string.split(left)[1].split(right)[0]; }
      catch { return false; }
  }
  \<close>
  Index 1 of an array with fewer than two elements is \<^verbatim>\<open>undefined\<close>, whose
  \<^verbatim>\<open>split\<close> raises a TypeError; the \<^verbatim>\<open>catch\<close> turns it into \<^verbatim>\<open>false\<close>.
\<close>

definition getString :: "'a list \<Rightarrow> 'a list \<Rightarrow> 'a list \<Rightarrow> 'a extracted" where
  "getString string left right =
     (case split string left of
        _ # between # _ \<Rightarrow>
          (case split between right of
             [] \<Rightarrow> JsUndefined
           | first # _ \<Rightarrow> Text first)
      | _ \<Rightarrow> JsFalse)"

text \<open>
  The words of the specification: \<open>upTo sep t p\<close> says that \<open>p\<close> is the text of \<open>t\<close>
  before the first occurrence of \<open>sep\<close>, or all of \<open>t\<close> when \<open>sep\<close> does not occur in it.
  An occurrence of \<open>sep\<close> that starts inside \<open>p\<close> lies within \<open>p @ butlast sep\<close>.
\<close>

definition upTo :: "'a list \<Rightarrow> 'a list \<Rightarrow> 'a list \<Rightarrow> bool" where
  "upTo sep t p \<longleftrightarrow>
     (\<exists>u. t = p @ sep @ u \<and> \<not> sublist sep (p @ butlast sep)) \<or> (p = t \<and> \<not> sublist sep t)"

section \<open>JavaScript values\<close>

text \<open>
  The transformers receive what \<^verbatim>\<open>response.json()\<close> returns: any JSON value.  The
  values of the model are the JSON values and \<^verbatim>\<open>undefined\<close>, which reading a missing
  property yields and which therefore occurs in results.  An object is the list of its
  members in source order; when a key is repeated the last member wins, as in
  \<^verbatim>\<open>JSON.parse\<close>.  Numbers are modelled by integers: the program only tests them for
  truth and prints them.
\<close>

datatype jsval =
    JUndefined
  | JNull
  | JBool bool
  | JNum int
  | JStr string
  | JArr "jsval list"
  | JObj "(string \<times> jsval) list"

datatype js_error = TypeError string

text \<open>Sequencing of computations that may throw: the first error ends the computation.\<close>

definition andThen :: "'e + 'a \<Rightarrow> ('a \<Rightarrow> 'e + 'b) \<Rightarrow> 'e + 'b" where
  "andThen r f = (case r of Inl e \<Rightarrow> Inl e | Inr v \<Rightarrow> f v)"

fun truthy :: "jsval \<Rightarrow> bool" where
  "truthy JUndefined = False"
| "truthy JNull = False"
| "truthy (JBool b) = b"
| "truthy (JNum n) = (n \<noteq> 0)"
| "truthy (JStr s) = (s \<noteq> [])"
| "truthy (JArr xs) = True"
| "truthy (JObj kvs) = True"

fun nullish :: "jsval \<Rightarrow> bool" where
  "nullish JUndefined = True"
| "nullish JNull = True"
| "nullish v = False"

fun isArray :: "jsval \<Rightarrow> bool" where
  "isArray (JArr xs) = True"
| "isArray v = False"

text \<open>
  \<open>propOf v k\<close> is \<^verbatim>\<open>v.k\<close> for a value that is neither \<^verbatim>\<open>null\<close> nor
  \<^verbatim>\<open>undefined\<close>, for the property names this program reads: none of them is a
  property of the prototypes of strings, numbers, booleans, arrays or objects, so only an
  object's own members can provide them.  \<open>getProp\<close> adds the TypeError of reading a
  property of \<^verbatim>\<open>null\<close> or \<^verbatim>\<open>undefined\<close>; \<open>optChain v k\<close> is \<^verbatim>\<open>v?.k\<close>.
\<close>

fun propOf :: "jsval \<Rightarrow> string \<Rightarrow> jsval" where
  "propOf (JObj kvs) k = (case map_of (rev kvs) k of None \<Rightarrow> JUndefined | Some v \<Rightarrow> v)"
| "propOf v k = JUndefined"

definition getProp :: "jsval \<Rightarrow> string \<Rightarrow> js_error + jsval" where
  "getProp v k =
     (if v = JUndefined then
        Inl (TypeError (''Cannot read properties of undefined (reading '' @ [CHR 0x27] @ k @ [CHR 0x27] @ '')''))
      else if v = JNull then
        Inl (TypeError (''Cannot read properties of null (reading '' @ [CHR 0x27] @ k @ [CHR 0x27] @ '')''))
      else Inr (propOf v k))"

definition optChain :: "jsval \<Rightarrow> string \<Rightarrow> jsval" where
  "optChain v k = (if nullish v then JUndefined else propOf v k)"

text \<open>\<open>orElse a b\<close> is \<^verbatim>\<open>a || b\<close>.\<close>

definition orElse :: "jsval \<Rightarrow> jsval \<Rightarrow> jsval" where
  "orElse a b = (if truthy a then a else b)"

text \<open>\<^verbatim>\<open>Array.prototype.filter\<close> and \<^verbatim>\<open>map\<close> with a callback that may throw.\<close>

fun filterE :: "('a \<Rightarrow> 'e + bool) \<Rightarrow> 'a list \<Rightarrow> 'e + 'a list" where
  "filterE p [] = Inr []"
| "filterE p (x # xs) =
     andThen (p x) (\<lambda>keep. andThen (filterE p xs) (\<lambda>ys. Inr (if keep then x # ys else ys)))"

fun mapE :: "('a \<Rightarrow> 'e + 'b) \<Rightarrow> 'a list \<Rightarrow> 'e + 'b list" where
  "mapE f [] = Inr []"
| "mapE f (x # xs) = andThen (f x) (\<lambda>y. andThen (mapE f xs) (\<lambda>ys. Inr (y # ys)))"

text \<open>
  Conversion to a string, as a template literal does it.  Decimal printing of an integer
  agrees with JavaScript below \<open>10\<^sup>2\<^sup>1\<close> in magnitude; from there on JavaScript
  prints a number in exponent form, which \<open>showInt\<close> does not follow, and no property
  proved below depends on how a number prints.  An object prints as
  \<^verbatim>\<open>[object Object]\<close> through \<^verbatim>\<open>Object.prototype.toString\<close>, unless a member of its
  own named \<^verbatim>\<open>toString\<close> hides that method: a JSON value is not callable, and
  \<^verbatim>\<open>valueOf\<close> returns no primitive, so the conversion raises a TypeError.  An array
  prints its elements separated by commas, \<^verbatim>\<open>null\<close> and \<^verbatim>\<open>undefined\<close> as nothing.
\<close>

function showNat :: "nat \<Rightarrow> string" where
  "showNat n = (if n < 10 then [''0123456789'' ! n] else showNat (n div 10) @ [''0123456789'' ! (n mod 10)])"
  by pat_completeness auto
termination
  by (relation "measure (\<lambda>n. n)") auto

definition showInt :: "int \<Rightarrow> string" where
  "showInt i = (if i < 0 then CHR ''-'' # showNat (nat (- i)) else showNat (nat i))"

fun toString :: "jsval \<Rightarrow> js_error + string"
  and joinElements :: "jsval list \<Rightarrow> js_error + string" where
  "toString JUndefined = Inr ''undefined''"
| "toString JNull = Inr ''null''"
| "toString (JBool b) = Inr (if b then ''true'' else ''false'')"
| "toString (JNum n) = Inr (showInt n)"
| "toString (JStr s) = Inr s"
| "toString (JArr xs) = joinElements xs"
| "toString (JObj kvs) =
     (if ''toString'' \<in> set (map fst kvs) then Inl (TypeError ''Cannot convert object to primitive value'')
      else Inr ''[object Object]'')"
| "joinElements [] = Inr []"
| "joinElements (x # xs) =
     andThen (if nullish x then Inr [] else toString x) (\<lambda>first.
       if xs = [] then Inr first
       else andThen (joinElements xs) (\<lambda>others. Inr (first @ '','' @ others)))"

text \<open>
  A \<^verbatim>\<open>Map\<close>: its entries in insertion order.  Keys are compared by SameValueZero: two
  primitive values are the same key when they are equal, and an object or an array is the
  same key only as itself; every object of a parsed response is an object of its own, so
  in this program an object or array key never meets itself again.
\<close>

fun primitive :: "jsval \<Rightarrow> bool" where
  "primitive (JArr xs) = False"
| "primitive (JObj kvs) = False"
| "primitive v = True"

definition sameValueZero :: "jsval \<Rightarrow> jsval \<Rightarrow> bool" where
  "sameValueZero a b \<longleftrightarrow> primitive a \<and> a = b"

fun mapSet :: "(jsval \<times> 'v) list \<Rightarrow> jsval \<Rightarrow> 'v \<Rightarrow> (jsval \<times> 'v) list" where
  "mapSet [] k v = [(k, v)]"
| "mapSet ((k', v') # m) k v =
     (if sameValueZero k' k then (k', v) # m else (k', v') # mapSet m k v)"

fun mapGet :: "(jsval \<times> jsval) list \<Rightarrow> jsval \<Rightarrow> jsval" where
  "mapGet [] k = JUndefined"
| "mapGet ((k', v') # m) k = (if sameValueZero k' k then v' else mapGet m k)"

definition mapValues :: "(jsval \<times> 'v) list \<Rightarrow> 'v list" where
  "mapValues m = map snd m"

text \<open>
  What \<^verbatim>\<open>for (const x of v)\<close> iterates over: the elements of an array, the characters
  of a string; any other value here is not iterable.
\<close>

fun iterate :: "string \<Rightarrow> jsval \<Rightarrow> js_error + jsval list" where
  "iterate what (JArr xs) = Inr xs"
| "iterate what (JStr s) = Inr (map (\<lambda>c. JStr [c]) s)"
| "iterate what v = Inl (TypeError (what @ '' is not iterable''))"

section \<open>The courses transformer (utils/getCourses.js)\<close>

text \<open>
  A transformer returns its value together with the lines it wrote with
  \<^verbatim>\<open>console.error\<close>, or throws.
  \<^verbatim>\<open>
  function getCoursesAsJson(coursesDataObject) {
    if (!coursesDataObject || !Array.isArray(coursesDataObject.results)) {
      console.error("Invalid or incomplete course data object provided. 'results' array is missing.");
      return { courses: [] };
    }
    const courses = coursesDataObject.results
      .filter(enrollment => enrollment.course && !enrollment.course.isOrganization)
      .map(enrollment => {
        const courseDetails = enrollment.course;
        return { courseId: courseDetails.courseId, courseName: courseDetails.name, id: courseDetails.id };
      });
    return { courses: courses };
  }
  \<close>
\<close>

definition keepEnrollment :: "jsval \<Rightarrow> js_error + bool" where
  "keepEnrollment enrollment =
     andThen (getProp enrollment ''course'') (\<lambda>course.
       if \<not> truthy course then Inr False
       else andThen (getProp course ''isOrganization'') (\<lambda>isOrganization.
         Inr (\<not> truthy isOrganization)))"

definition toCourse :: "jsval \<Rightarrow> js_error + jsval" where
  "toCourse enrollment =
     andThen (getProp enrollment ''course'') (\<lambda>courseDetails.
     andThen (getProp courseDetails ''courseId'') (\<lambda>courseId.
     andThen (getProp courseDetails ''name'') (\<lambda>name.
     andThen (getProp courseDetails ''id'') (\<lambda>id.
       Inr (JObj [(''courseId'', courseId), (''courseName'', name), (''id'', id)])))))"

definition coursesInvalid :: "string list \<times> jsval" where
  "coursesInvalid =
     ([''Invalid or incomplete course data object provided. '' @ [CHR 0x27] @ ''results'' @ [CHR 0x27]
         @ '' array is missing.''],
      JObj [(''courses'', JArr [])])"

definition getCoursesAsJson :: "jsval \<Rightarrow> js_error + (string list \<times> jsval)" where
  "getCoursesAsJson coursesDataObject =
     (if \<not> truthy coursesDataObject then Inr coursesInvalid
      else case propOf coursesDataObject ''results'' of
        JArr results \<Rightarrow>
          andThen (filterE keepEnrollment results) (\<lambda>kept.
          andThen (mapE toCourse kept) (\<lambda>courses.
            Inr ([], JObj [(''courses'', JArr courses)])))
      | _ \<Rightarrow> Inr coursesInvalid)"

section \<open>The activity transformer (utils/getAssignments.js)\<close>

text \<open>
  \<^verbatim>\<open>
  function getActivitiesAsJson(streamDataObject) {
    if (!streamDataObject || !streamDataObject.sv_streamEntries || !streamDataObject.sv_extras) {
      console.error("Invalid or incomplete data object provided.");
      return { activities: [] };
    }
    const courseMap = new Map();
    if (streamDataObject.sv_extras.sx_courses) {
      for (const course of streamDataObject.sv_extras.sx_courses) {
        courseMap.set(course.id, course.name);
      }
    }
    const allActivities = streamDataObject.sv_streamEntries
      .filter(entry => entry.providerId === 'bb-nautilus')
      .filter(entry => {
        const type = entry.itemSpecificData?.notificationDetails?.sourceType;
        return type === 'UA' || type === 'TE';
      })
      .map(entry => {
        const details = entry.itemSpecificData;
        const notificationDetails = details.notificationDetails;
        return {
          activityName: details.title || 'Untitled Activity',
          courseName: courseMap.get(entry.se_courseId) || 'Unknown Course',
          type: notificationDetails.sourceType === 'UA' ? 'Assignment' : 'Test',
          dueDate: notificationDetails.dueDate || null,
          givenDate: notificationDetails.startDate || null,
        };
      });
    const uniqueActivities = Array.from(
      new Map(allActivities.map(act => [`${act.activityName}-${act.courseName}`, act])).values()
    );
    return { activities: uniqueActivities };
  }
  \<close>
\<close>

fun setCourses :: "(jsval \<times> jsval) list \<Rightarrow> jsval list \<Rightarrow> js_error + (jsval \<times> jsval) list" where
  "setCourses courseMap [] = Inr courseMap"
| "setCourses courseMap (course # courses) =
     andThen (getProp course ''id'') (\<lambda>id.
     andThen (getProp course ''name'') (\<lambda>name.
       setCourses (mapSet courseMap id name) courses))"

definition buildCourseMap :: "jsval \<Rightarrow> js_error + (jsval \<times> jsval) list" where
  "buildCourseMap sx_courses =
     (if truthy sx_courses then
        andThen (iterate ''streamDataObject.sv_extras.sx_courses'' sx_courses) (setCourses [])
      else Inr [])"

definition fromNautilus :: "jsval \<Rightarrow> js_error + bool" where
  "fromNautilus entry =
     andThen (getProp entry ''providerId'') (\<lambda>providerId. Inr (providerId = JStr ''bb-nautilus''))"

definition assignmentOrTest :: "jsval \<Rightarrow> js_error + bool" where
  "assignmentOrTest entry =
     andThen (getProp entry ''itemSpecificData'') (\<lambda>itemSpecificData.
       let type = optChain (optChain itemSpecificData ''notificationDetails'') ''sourceType''
       in Inr (type = JStr ''UA'' \<or> type = JStr ''TE''))"

definition toActivity :: "(jsval \<times> jsval) list \<Rightarrow> jsval \<Rightarrow> js_error + jsval" where
  "toActivity courseMap entry =
     andThen (getProp entry ''itemSpecificData'') (\<lambda>details.
     andThen (getProp details ''notificationDetails'') (\<lambda>notificationDetails.
     andThen (getProp details ''title'') (\<lambda>title.
     andThen (getProp entry ''se_courseId'') (\<lambda>se_courseId.
     andThen (getProp notificationDetails ''sourceType'') (\<lambda>sourceType.
     andThen (getProp notificationDetails ''dueDate'') (\<lambda>dueDate.
     andThen (getProp notificationDetails ''startDate'') (\<lambda>startDate.
       Inr (JObj
         [(''activityName'', orElse title (JStr ''Untitled Activity'')),
          (''courseName'', orElse (mapGet courseMap se_courseId) (JStr ''Unknown Course'')),
          (''type'', if sourceType = JStr ''UA'' then JStr ''Assignment'' else JStr ''Test''),
          (''dueDate'', orElse dueDate JNull),
          (''givenDate'', orElse startDate JNull)]))))))))"

definition activityKey :: "jsval \<Rightarrow> js_error + (jsval \<times> jsval)" where
  "activityKey act =
     andThen (getProp act ''activityName'') (\<lambda>activityName.
     andThen (toString activityName) (\<lambda>a.
     andThen (getProp act ''courseName'') (\<lambda>courseName.
     andThen (toString courseName) (\<lambda>c.
       Inr (JStr (a @ ''-'' @ c), act)))))"

definition newMap :: "(jsval \<times> 'v) list \<Rightarrow> (jsval \<times> 'v) list" where
  "newMap pairs = foldl (\<lambda>m (k, v). mapSet m k v) [] pairs"

definition activitiesInvalid :: "string list \<times> jsval" where
  "activitiesInvalid =
     ([''Invalid or incomplete data object provided.''], JObj [(''activities'', JArr [])])"

definition getActivitiesAsJson :: "jsval \<Rightarrow> js_error + (string list \<times> jsval)" where
  "getActivitiesAsJson streamDataObject =
     (if \<not> truthy streamDataObject \<or> \<not> truthy (propOf streamDataObject ''sv_streamEntries'')
         \<or> \<not> truthy (propOf streamDataObject ''sv_extras'')
      then Inr activitiesInvalid
      else
        andThen (buildCourseMap (propOf (propOf streamDataObject ''sv_extras'') ''sx_courses'')) (\<lambda>courseMap.
        case propOf streamDataObject ''sv_streamEntries'' of
          JArr sv_streamEntries \<Rightarrow>
            andThen (filterE fromNautilus sv_streamEntries) (\<lambda>nautilus.
            andThen (filterE assignmentOrTest nautilus) (\<lambda>kept.
            andThen (mapE (toActivity courseMap) kept) (\<lambda>allActivities.
            andThen (mapE activityKey allActivities) (\<lambda>pairs.
              Inr ([], JObj [(''activities'', JArr (mapValues (newMap pairs)))])))))
        | _ \<Rightarrow> Inl (TypeError ''streamDataObject.sv_streamEntries.filter is not a function'')))"

section \<open>The engine (mbe.js)\<close>

text \<open>
  The state of an \<^verbatim>\<open>Engine\<close> object.  The first eight fields are the fields of the
  class that the queues and the gates use; \<^verbatim>\<open>username\<close>, \<^verbatim>\<open>password\<close>,
  \<^verbatim>\<open>isHeadless\<close>, \<^verbatim>\<open>browser\<close> and \<^verbatim>\<open>page\<close> only reach the browser driver and are left
  out.  The other fields record what the class leaves implicit:
  \<^item> \<open>initialized\<close>: where the call of \<^verbatim>\<open>initialize()\<close> made by the constructor is
    suspended (the promise the class stores in \<^verbatim>\<open>this.initialized\<close>);
  \<^item> \<open>apiActionThrew\<close>: the message of the error with which the API action that
    \<^verbatim>\<open>_tryProcessApiQueue\<close> awaits has already rejected, if it has;
  \<^item> \<open>browserCalls\<close>, \<open>apiCalls\<close>: the queued actions called so far, in the order of the calls;
  \<^item> \<open>emitted\<close>: the notifications emitted so far, each with its name and payload;
  \<^item> \<open>console\<close>: the lines written with \<^verbatim>\<open>console.error\<close>;
  \<^item> \<open>dateNow\<close>: what \<^verbatim>\<open>Date.now()\<close> returns.

  A queued action is a closure; the model names it by a number that the caller of
  \<^verbatim>\<open>getActivities\<close> or \<^verbatim>\<open>getCourses\<close> chooses, so that two queued closures can be told apart.
\<close>

type_synonym action = nat

datatype init_state =
    Launching
  | AwaitingConsent
  | AwaitingLoadState
  | Resolved
  | Rejected

record engine =
  cookie :: "string option"
  userData :: jsval
  browserActionQueue :: "action list"
  apiActionQueue :: "action list"
  isBrowserReady :: bool
  isApiReady :: bool
  isProcessingBrowserQueue :: bool
  isProcessingApiQueue :: bool
  initialized :: init_state
  apiActionThrew :: "string option"
  browserCalls :: "action list"
  apiCalls :: "action list"
  emitted :: "(string \<times> jsval) list"
  console :: "string list"
  dateNow :: nat

text \<open>
  \<^verbatim>\<open>
  _log(level, message) {
      this.emit('log', { date: Date.now(), level, message });
  }
  \<close>
\<close>

definition emit :: "string \<Rightarrow> jsval \<Rightarrow> engine \<Rightarrow> engine" where
  "emit name payload s = s\<lparr>emitted := emitted s @ [(name, payload)]\<rparr>"

definition log :: "string \<Rightarrow> string \<Rightarrow> engine \<Rightarrow> engine" where
  "log level message s =
     emit ''log''
       (JObj [(''date'', JNum (int (dateNow s))), (''level'', JStr level), (''message'', JStr message)]) s"

subsection \<open>The browser queue\<close>

text \<open>
  The action that \<^verbatim>\<open>getActivities\<close> queues logs and then awaits a click; calling it
  runs it up to that \<^verbatim>\<open>await\<close>.
  \<^verbatim>\<open>
  const action = async () => {
      this._log('INFO', 'Navigating to Activity page.');
      await this.page.getByRole('link', { name: 'Activity' }).click();
  };
  \<close>
\<close>

definition callBrowserAction :: "action \<Rightarrow> engine \<Rightarrow> engine" where
  "callBrowserAction action s =
     log ''INFO'' ''Navigating to Activity page.'' (s\<lparr>browserCalls := browserCalls s @ [action]\<rparr>)"

text \<open>
  \<^verbatim>\<open>
  async _tryProcessBrowserQueue() {
      if (!this.isBrowserReady || this.isProcessingBrowserQueue) { return; }
      this.isProcessingBrowserQueue = true;
      while (this.browserActionQueue.length > 0) {
          const action = this.browserActionQueue.shift();
          try { await action(); }
          catch (error) { this._log('ERROR', `Browser action failed: ${error.message}`); }
      }
      this.isProcessingBrowserQueue = false;
  }
  \<close>
  An asynchronous function runs until its next \<^verbatim>\<open>await\<close> and is resumed when the awaited
  promise settles.  \<open>browserLoop\<close> is the loop from its test to the next \<^verbatim>\<open>await\<close>, or to
  the end of the function; \<open>browserActionSettled\<close> resumes the function at the \<^verbatim>\<open>await\<close>.
  The function is suspended there exactly while \<open>isProcessingBrowserQueue\<close> holds.
\<close>

datatype settled = Fulfilled | Failed string

definition browserLoop :: "engine \<Rightarrow> engine" where
  "browserLoop s =
     (case browserActionQueue s of
        [] \<Rightarrow> s\<lparr>isProcessingBrowserQueue := False\<rparr>
      | action # rest \<Rightarrow> callBrowserAction action (s\<lparr>browserActionQueue := rest\<rparr>))"

definition tryProcessBrowserQueue :: "engine \<Rightarrow> engine" where
  "tryProcessBrowserQueue s =
     (if \<not> isBrowserReady s \<or> isProcessingBrowserQueue s then s
      else browserLoop (s\<lparr>isProcessingBrowserQueue := True\<rparr>))"

definition browserActionSettled :: "settled \<Rightarrow> engine \<Rightarrow> engine" where
  "browserActionSettled outcome s =
     (if \<not> isProcessingBrowserQueue s then s
      else browserLoop
        (case outcome of
           Fulfilled \<Rightarrow> s
         | Failed message \<Rightarrow> log ''ERROR'' (''Browser action failed: '' @ message) s))"

text \<open>
  \<^verbatim>\<open>
  async getActivities() {
      this._log('DEBUG', 'Queueing browser action: getActivities');
      const action = async () => { ... };
      this.browserActionQueue.push(action);
      this._tryProcessBrowserQueue();
  }
  \<close>
\<close>

definition getActivities :: "action \<Rightarrow> engine \<Rightarrow> engine" where
  "getActivities action s =
     tryProcessBrowserQueue
       ((log ''DEBUG'' ''Queueing browser action: getActivities'' s)
          \<lparr>browserActionQueue := browserActionQueue s @ [action]\<rparr>)"

subsection \<open>The API queue\<close>

text \<open>
  The action that \<^verbatim>\<open>getCourses\<close> queues:
  \<^verbatim>\<open>
  const action = async () => {
      this._log('INFO', 'Fetching courses via API.');
      const url = `https://.../users/${this.userData.id}/memberships?...`;
      try {
          const response = await fetch(url, { headers: { cookie: this.cookie } });
          if (!response.ok) { throw new Error(`API request failed with status ${response.status}`); }
          const responseData = await response.json();
          const courses = getCourses(responseData);
          this.emit('fetch:courses', courses);
          this._log('INFO', 'Successfully fetched and processed courses.');
      } catch (error) {
          this._log('ERROR', `Failed to fetch or process courses: ${error.message}`);
      }
  };
  \<close>
  Calling it runs it up to the \<^verbatim>\<open>fetch\<close>.  Building the URL throws when
  \<^verbatim>\<open>this.userData\<close> is \<^verbatim>\<open>null\<close> or its \<^verbatim>\<open>id\<close> cannot be printed; this is outside the
  \<^verbatim>\<open>try\<close>, so the action's promise rejects.  \<open>coursesFetched\<close> is the rest of the action,
  run when the request has settled in one of four ways.
\<close>

definition callApiAction :: "action \<Rightarrow> engine \<Rightarrow> engine" where
  "callApiAction action s =
     (let s' = log ''INFO'' ''Fetching courses via API.'' (s\<lparr>apiCalls := apiCalls s @ [action]\<rparr>)
      in case andThen (getProp (userData s') ''id'') toString of
           Inl (TypeError message) \<Rightarrow> s'\<lparr>apiActionThrew := Some message\<rparr>
         | Inr printed \<Rightarrow> s'\<lparr>apiActionThrew := None\<rparr>)"

datatype fetched =
    FetchFailed string
  | ResponseNotOk nat
  | JsonFailed string
  | ResponseJson jsval

definition coursesFetched :: "fetched \<Rightarrow> engine \<Rightarrow> engine" where
  "coursesFetched outcome s =
     (case outcome of
        FetchFailed message \<Rightarrow> log ''ERROR'' (''Failed to fetch or process courses: '' @ message) s
      | ResponseNotOk status \<Rightarrow>
          log ''ERROR'' (''Failed to fetch or process courses: ''
            @ ''API request failed with status '' @ showNat status) s
      | JsonFailed message \<Rightarrow> log ''ERROR'' (''Failed to fetch or process courses: '' @ message) s
      | ResponseJson responseData \<Rightarrow>
          (case getCoursesAsJson responseData of
             Inl (TypeError message) \<Rightarrow>
               log ''ERROR'' (''Failed to fetch or process courses: '' @ message) s
           | Inr (lines, courses) \<Rightarrow>
               log ''INFO'' ''Successfully fetched and processed courses.''
                 (emit ''fetch:courses'' courses (s\<lparr>console := console s @ lines\<rparr>))))"

text \<open>
  \<^verbatim>\<open>
  async _tryProcessApiQueue() {
      if (!this.isApiReady || this.isProcessingApiQueue) { return; }
      this.isProcessingApiQueue = true;
      while (this.apiActionQueue.length > 0) {
          const action = this.apiActionQueue.shift();
          try { await action(); }
          catch (error) { this._log('ERROR', `API action failed: ${error.message}`); }
      }
      this.isProcessingApiQueue = false;
  }
  \<close>
  \<open>apiActionSettled\<close> resumes the function when the awaited action has settled: rejected
  at its call, or finished after its request settled with \<open>outcome\<close>.
\<close>

definition apiLoop :: "engine \<Rightarrow> engine" where
  "apiLoop s =
     (case apiActionQueue s of
        [] \<Rightarrow> s\<lparr>isProcessingApiQueue := False\<rparr>
      | action # rest \<Rightarrow> callApiAction action (s\<lparr>apiActionQueue := rest\<rparr>))"

definition tryProcessApiQueue :: "engine \<Rightarrow> engine" where
  "tryProcessApiQueue s =
     (if \<not> isApiReady s \<or> isProcessingApiQueue s then s
      else apiLoop (s\<lparr>isProcessingApiQueue := True\<rparr>))"

definition apiActionSettled :: "fetched \<Rightarrow> engine \<Rightarrow> engine" where
  "apiActionSettled outcome s =
     (if \<not> isProcessingApiQueue s then s
      else apiLoop
        (case apiActionThrew s of
           Some message \<Rightarrow> log ''ERROR'' (''API action failed: '' @ message) (s\<lparr>apiActionThrew := None\<rparr>)
         | None \<Rightarrow> coursesFetched outcome s))"

text \<open>
  \<^verbatim>\<open>
  async getCourses() {
      this._log('DEBUG', 'Queueing API action: getCourses');
      const action = async () => { ... };
      this.apiActionQueue.push(action);
      this._tryProcessApiQueue();
  }
  \<close>
\<close>

definition getCourses :: "action \<Rightarrow> engine \<Rightarrow> engine" where
  "getCourses action s =
     tryProcessApiQueue
       ((log ''DEBUG'' ''Queueing API action: getCourses'' s)
          \<lparr>apiActionQueue := apiActionQueue s @ [action]\<rparr>)"

subsection \<open>Construction and initialization\<close>

text \<open>
  The constructor sets the fields and calls \<^verbatim>\<open>initialize()\<close>, which logs and then awaits
  the browser.  \<open>pageContent\<close> resumes it at line 78, when the content of the page has
  arrived (\<open>isNotLoggedIn\<close> tells whether it holds the login header); \<open>consentClick\<close> and
  \<open>loadState\<close> resume \<^verbatim>\<open>login()\<close> at its two guarded waits.  \<open>sessionReady\<close> is
  \<^verbatim>\<open>
  this.isBrowserReady = true;
  this._log('INFO', 'Browser is ready. Processing browser action queue.');
  this._tryProcessBrowserQueue();
  return true;
  \<close>
  and \<open>initializeFailed\<close> is the rejection of one of the unguarded waits.
\<close>

definition constructor :: "nat \<Rightarrow> engine" where
  "constructor now =
     log ''INFO'' ''Engine initialization started.''
       \<lparr>cookie = None, userData = JNull, browserActionQueue = [], apiActionQueue = [],
        isBrowserReady = False, isApiReady = False,
        isProcessingBrowserQueue = False, isProcessingApiQueue = False,
        initialized = Launching, apiActionThrew = None, browserCalls = [], apiCalls = [],
        emitted = [], console = [], dateNow = now\<rparr>"

definition sessionReady :: "engine \<Rightarrow> engine" where
  "sessionReady s =
     (tryProcessBrowserQueue
        (log ''INFO'' ''Browser is ready. Processing browser action queue.''
           (s\<lparr>isBrowserReady := True\<rparr>)))
       \<lparr>initialized := Resolved\<rparr>"

definition pageContent :: "bool \<Rightarrow> engine \<Rightarrow> engine" where
  "pageContent isNotLoggedIn s =
     (if initialized s \<noteq> Launching then s
      else if \<not> isNotLoggedIn then sessionReady (log ''INFO'' ''User is already logged in.'' s)
      else (log ''INFO'' ''User not logged in, proceeding with login.'' s)
             \<lparr>initialized := AwaitingConsent\<rparr>)"

definition consentClick :: "bool \<Rightarrow> engine \<Rightarrow> engine" where
  "consentClick clicked s =
     (if initialized s \<noteq> AwaitingConsent then s
      else (log ''DEBUG''
              (if clicked then ''Clicked cookie consent button.''
               else ''Cookie consent banner not found, skipping.'') s)
             \<lparr>initialized := AwaitingLoadState\<rparr>)"

definition loadState :: "bool \<Rightarrow> engine \<Rightarrow> engine" where
  "loadState idle s =
     (if initialized s \<noteq> AwaitingLoadState then s
      else sessionReady
        (log ''INFO'' ''Login successful.''
           (if idle then s
            else log ''WARN'' ''Network did not become idle after login, continuing anyway.'' s)))"

definition initializeFailed :: "engine \<Rightarrow> engine" where
  "initializeFailed s =
     (if initialized s = Launching \<or> initialized s = AwaitingLoadState
      then s\<lparr>initialized := Rejected\<rparr> else s)"

subsection \<open>The credential harvester\<close>

text \<open>
  \<^verbatim>\<open>
  _checkApiReady() {
      if (this.isApiReady) return; // Only run once
      if (this.cookie && this.userData) {
          this.isApiReady = true;
          this._log('INFO', 'API credentials acquired. API queue is now ready.');
          this._tryProcessApiQueue();
      }
  }
  \<close>
\<close>

definition cookieTruthy :: "string option \<Rightarrow> bool" where
  "cookieTruthy c = (case c of None \<Rightarrow> False | Some text \<Rightarrow> text \<noteq> [])"

definition checkApiReady :: "engine \<Rightarrow> engine" where
  "checkApiReady s =
     (if isApiReady s then s
      else if cookieTruthy (cookie s) \<and> truthy (userData s) then
        tryProcessApiQueue
          (log ''INFO'' ''API credentials acquired. API queue is now ready.''
             (s\<lparr>isApiReady := True\<rparr>))
      else s)"

text \<open>
  The route handler, resumed when the headers of a request have arrived
  (\<open>requestHeaders\<close>, with the \<^verbatim>\<open>cookie\<close> header if there is one) and when the request
  has been let through (\<open>routeContinued\<close>):
  \<^verbatim>\<open>
  const headers = await route.request().allHeaders();
  if (headers.cookie) { this.cookie = headers.cookie; }
  await route.continue();
  this._checkApiReady();
  \<close>
  The response handler for \<^verbatim>\<open>GET https://mcl.blackboard.com/ultra\<close>, resumed when the
  text of the response has arrived; \<open>parse\<close> is \<^verbatim>\<open>JSON.parse\<close>, \<open>None\<close> where it throws:
  \<^verbatim>\<open>
  try {
      const responseBody = await response.text();
      const userDataString = getString(responseBody, 'user: ', ',\n');
      if (userDataString) {
          this.userData = JSON.parse(userDataString);
          this._checkApiReady();
      }
  } catch { /* Ignore parsing errors */ }
  \<close>
\<close>

definition requestHeaders :: "string option \<Rightarrow> engine \<Rightarrow> engine" where
  "requestHeaders header s = (if cookieTruthy header then s\<lparr>cookie := header\<rparr> else s)"

definition routeContinued :: "engine \<Rightarrow> engine" where
  "routeContinued s = checkApiReady s"

definition ultraResponse :: "(string \<Rightarrow> jsval option) \<Rightarrow> string \<Rightarrow> engine \<Rightarrow> engine" where
  "ultraResponse parse responseBody s =
     (case getString responseBody ''user: '' '',\<newline>'' of
        Text userDataString \<Rightarrow>
          (if userDataString \<noteq> [] then
             (case parse userDataString of
                None \<Rightarrow> s
              | Some value \<Rightarrow> checkApiReady (s\<lparr>userData := value\<rparr>))
           else s)
      | _ \<Rightarrow> s)"

text \<open>
  \<^verbatim>\<open>
  async _handleActivityStreamResponse(response) {
      try {
          const requestData = await response.request().postDataJSON();
          let streamItemType;
          if (requestData.providers?.bb_deployment && Object.keys(requestData.providers).length < 3) {
              streamItemType = 'assignments';
          }
          switch (streamItemType) {
              case 'assignments': {
                  const responseData = await response.json();
                  const assignments = getAssignments(responseData);
                  this.emit('fetch:assignments', assignments);
                  this._log('INFO', 'Fetched and processed assignments from activity stream.');
                  break;
              }
              default: break;
          }
      } catch (error) {
          this._log('ERROR', `Error processing activity stream response: ${error.message}`);
      }
  }
  \<close>
  Nothing is emitted and no field is written before the last \<^verbatim>\<open>await\<close> has settled, so
  the handler is one step, taken when both the request data and the response data are
  known; each is a value, or the message of the error its promise rejected with.
  \<open>objectKeys\<close> is \<^verbatim>\<open>Object.keys\<close>; it is only reached for an object.
\<close>

fun objectKeys :: "jsval \<Rightarrow> string list" where
  "objectKeys (JObj kvs) = remdups (map fst kvs)"
| "objectKeys (JArr xs) = map showNat [0..<length xs]"
| "objectKeys (JStr text) = map showNat [0..<length text]"
| "objectKeys v = []"

definition isAssignmentsRequest :: "jsval \<Rightarrow> js_error + bool" where
  "isAssignmentsRequest requestData =
     andThen (getProp requestData ''providers'') (\<lambda>providers.
       Inr (truthy (optChain providers ''bb_deployment'') \<and> length (objectKeys providers) < 3))"

definition handleActivityStreamResponse :: "string + jsval \<Rightarrow> string + jsval \<Rightarrow> engine \<Rightarrow> engine" where
  "handleActivityStreamResponse request response s =
     (case request of
        Inl message \<Rightarrow> log ''ERROR'' (''Error processing activity stream response: '' @ message) s
      | Inr requestData \<Rightarrow>
          (case isAssignmentsRequest requestData of
             Inl (TypeError message) \<Rightarrow>
               log ''ERROR'' (''Error processing activity stream response: '' @ message) s
           | Inr False \<Rightarrow> s
           | Inr True \<Rightarrow>
               (case response of
                  Inl message \<Rightarrow>
                    log ''ERROR'' (''Error processing activity stream response: '' @ message) s
                | Inr responseData \<Rightarrow>
                    (case getActivitiesAsJson responseData of
                       Inl (TypeError message) \<Rightarrow>
                         log ''ERROR'' (''Error processing activity stream response: '' @ message) s
                     | Inr (lines, assignments) \<Rightarrow>
                         log ''INFO'' ''Fetched and processed assignments from activity stream.''
                           (emit ''fetch:assignments'' assignments
                              (s\<lparr>console := console s @ lines\<rparr>))))))"

subsection \<open>Runs of the engine\<close>

text \<open>
  JavaScript runs one piece of code at a time, to its end or to its next \<^verbatim>\<open>await\<close>.
  An event is what starts or resumes a piece: a call by the user of the engine, the
  settling of an awaited promise, or the passing of time.  A run applies a list of events
  in order, from the state the constructor leaves.
\<close>

datatype event =
    Tick nat
  | PageContent bool
  | ConsentClick bool
  | LoadState bool
  | InitializeFailed
  | GetActivities action
  | GetCourses action
  | BrowserActionSettled settled
  | ApiActionSettled fetched
  | RequestHeaders "string option"
  | RouteContinued
  | UltraResponse string
  | ActivityStreamResponse "string + jsval" "string + jsval"

fun step :: "(string \<Rightarrow> jsval option) \<Rightarrow> event \<Rightarrow> engine \<Rightarrow> engine" where
  "step parse (Tick n) s = s\<lparr>dateNow := dateNow s + n\<rparr>"
| "step parse (PageContent isNotLoggedIn) s = pageContent isNotLoggedIn s"
| "step parse (ConsentClick clicked) s = consentClick clicked s"
| "step parse (LoadState idle) s = loadState idle s"
| "step parse InitializeFailed s = initializeFailed s"
| "step parse (GetActivities action) s = getActivities action s"
| "step parse (GetCourses action) s = getCourses action s"
| "step parse (BrowserActionSettled outcome) s = browserActionSettled outcome s"
| "step parse (ApiActionSettled outcome) s = apiActionSettled outcome s"
| "step parse (RequestHeaders header) s = requestHeaders header s"
| "step parse RouteContinued s = routeContinued s"
| "step parse (UltraResponse responseBody) s = ultraResponse parse responseBody s"
| "step parse (ActivityStreamResponse request response) s =
     handleActivityStreamResponse request response s"

definition run :: "(string \<Rightarrow> jsval option) \<Rightarrow> event list \<Rightarrow> engine \<Rightarrow> engine" where
  "run parse events s = foldl (\<lambda>s e. step parse e s) s events"

text \<open>The actions queued by a list of events, in the order in which they were queued.\<close>

fun browserEnqueued :: "event list \<Rightarrow> action list" where
  "browserEnqueued [] = []"
| "browserEnqueued (GetActivities action # events) = action # browserEnqueued events"
| "browserEnqueued (e # events) = browserEnqueued events"

fun apiEnqueued :: "event list \<Rightarrow> action list" where
  "apiEnqueued [] = []"
| "apiEnqueued (GetCourses action # events) = action # apiEnqueued events"
| "apiEnqueued (e # events) = apiEnqueued events"

section \<open>The coordinator of the specification\<close>

text \<open>
  The specification describes each of the two queues as a coordinator with the operations
  \<^verbatim>\<open>enqueue\<close>, \<^verbatim>\<open>tryDrain\<close> and \<^verbatim>\<open>openGate\<close>.  The definitions of this section follow
  its words, for one queue; they are compared below with what the engine does to the
  fields of either queue.  A coordinator is the queue, its gate, its draining flag, and
  the actions executed so far.

  \<^item> \<open>tryDrain\<close>: ``if the gate is false, or draining is true, returns immediately.
    Otherwise sets draining and enters a loop: while the queue is non-empty, pop the head
    action and await its completion.  When the queue becomes empty, sets draining to
    false and returns.''  \<open>drainLoop\<close> is that loop up to the next action it awaits, and
    \<open>settle\<close> its continuation once the awaited action has completed or failed.
  \<^item> \<open>enqueue\<close>: ``appends the action to the queue's tail; after appending, invokes
    tryDrain.''
  \<^item> \<open>openGate\<close>: ``sets the gate to true, then calls tryDrain.''
\<close>

type_synonym 'a coordinator = "'a list \<times> bool \<times> bool \<times> 'a list"

definition pending :: "'a coordinator \<Rightarrow> 'a list" where
  "pending c = fst c"

definition gate :: "'a coordinator \<Rightarrow> bool" where
  "gate c = fst (snd c)"

definition draining :: "'a coordinator \<Rightarrow> bool" where
  "draining c = fst (snd (snd c))"

definition executed :: "'a coordinator \<Rightarrow> 'a list" where
  "executed c = snd (snd (snd c))"

fun drainLoop :: "'a coordinator \<Rightarrow> 'a coordinator" where
  "drainLoop ([], g, d, x) = ([], g, False, x)"
| "drainLoop (a # q, g, d, x) = (q, g, d, x @ [a])"

fun tryDrain :: "'a coordinator \<Rightarrow> 'a coordinator" where
  "tryDrain (q, g, d, x) = (if \<not> g \<or> d then (q, g, d, x) else drainLoop (q, g, True, x))"

fun enqueue :: "'a \<Rightarrow> 'a coordinator \<Rightarrow> 'a coordinator" where
  "enqueue a (q, g, d, x) = tryDrain (q @ [a], g, d, x)"

fun openGate :: "'a coordinator \<Rightarrow> 'a coordinator" where
  "openGate (q, g, d, x) = tryDrain (q, True, d, x)"

fun settle :: "'a coordinator \<Rightarrow> 'a coordinator" where
  "settle (q, g, d, x) = (if \<not> d then (q, g, d, x) else drainLoop (q, g, d, x))"

text \<open>
  The states of a coordinator that a run can reach: while the gate is closed nothing
  drains and nothing has been executed, and an open gate with no drain in progress has an
  empty queue.
\<close>

definition coordinated :: "'a coordinator \<Rightarrow> bool" where
  "coordinated c \<longleftrightarrow>
     (\<not> gate c \<longrightarrow> \<not> draining c \<and> executed c = [])
   \<and> (gate c \<and> \<not> draining c \<longrightarrow> pending c = [])"

text \<open>The two queues of the engine, seen as coordinators.\<close>

definition browserView :: "engine \<Rightarrow> action coordinator" where
  "browserView s =
     (browserActionQueue s, isBrowserReady s, isProcessingBrowserQueue s, browserCalls s)"

definition apiView :: "engine \<Rightarrow> action coordinator" where
  "apiView s = (apiActionQueue s, isApiReady s, isProcessingApiQueue s, apiCalls s)"

text \<open>
  The shape of the payload of a log notification: an object with the members
  \<^verbatim>\<open>date\<close>, \<^verbatim>\<open>level\<close> and \<^verbatim>\<open>message\<close>, in this order and no other, the date a
  number of milliseconds, the level one of the four level names, the message a string.
\<close>

definition logPayload :: "jsval \<Rightarrow> bool" where
  "logPayload payload \<longleftrightarrow>
     (\<exists>date level message.
        payload = JObj [(''date'', JNum (int date)), (''level'', JStr level), (''message'', JStr message)]
        \<and> level \<in> {''INFO'', ''DEBUG'', ''WARN'', ''ERROR''})"

definition logsWellFormed :: "engine \<Rightarrow> bool" where
  "logsWellFormed s \<longleftrightarrow> (\<forall>n\<in>set (emitted s). fst n = ''log'' \<longrightarrow> logPayload (snd n))"

section \<open>Properties of the extraction utility\<close>

text \<open>
  The defining equation of \<open>splitFrom\<close> mentions \<open>splitFrom\<close> on its right-hand
  side without a guard the simplifier can decide, so it is replaced by one rule per branch.
\<close>

lemma splitFrom_end: "sep \<noteq> [] \<Longrightarrow> splitFrom sep piece [] = [piece]"
  by (subst splitFrom.simps) simp

lemma splitFrom_cut:
  "sep \<noteq> [] \<Longrightarrow> prefix sep (c # cs) \<Longrightarrow>
     splitFrom sep piece (c # cs) = piece # splitFrom sep [] (drop (length sep) (c # cs))"
  by (subst splitFrom.simps) simp

lemma splitFrom_skip:
  "sep \<noteq> [] \<Longrightarrow> \<not> prefix sep (c # cs) \<Longrightarrow>
     splitFrom sep piece (c # cs) = splitFrom sep (piece @ [c]) cs"
  by (subst splitFrom.simps) simp

declare splitFrom.simps [simp del]

lemmas splitFrom_rules = splitFrom_end splitFrom_cut splitFrom_skip

lemma splitFrom_absent:
  "sep \<noteq> [] \<Longrightarrow> \<not> sublist sep s \<Longrightarrow> splitFrom sep piece s = [piece @ s]"
proof (induction s arbitrary: piece)
  case Nil
  then show ?case by (simp add: splitFrom_end)
next
  case (Cons c cs)
  have np: "\<not> prefix sep (c # cs)"
    using Cons.prems(2) by (auto simp: sublist_Cons_right)
  have ns: "\<not> sublist sep cs"
    using Cons.prems(2) by (auto simp: sublist_Cons_right)
  show ?case
    using Cons.IH[OF Cons.prems(1) ns, of "piece @ [c]"] np Cons.prems(1)
    by (simp add: splitFrom_skip)
qed

lemma no_early_prefix:
  assumes "sep \<noteq> []" and "\<not> sublist sep ((c # p) @ butlast sep)"
  shows "\<not> prefix sep ((c # p) @ sep @ u)"
proof
  assume "prefix sep ((c # p) @ sep @ u)"
  then have "prefix sep (((c # p) @ butlast sep) @ (last sep # u))"
    using assms(1) by (metis append.assoc append_Cons append_Nil append_butlast_last_id)
  moreover have "length sep \<le> length ((c # p) @ butlast sep)"
    by simp
  ultimately have "prefix sep ((c # p) @ butlast sep)"
    by (metis append_eq_append_conv_if append_take_drop_id prefix_def)
  then show False
    using assms(2) by (meson prefix_imp_sublist)
qed

lemma splitFrom_first:
  "sep \<noteq> [] \<Longrightarrow> \<not> sublist sep (p @ butlast sep) \<Longrightarrow>
     splitFrom sep piece (p @ sep @ u) = (piece @ p) # splitFrom sep [] u"
proof (induction p arbitrary: piece)
  case Nil
  obtain c cs where sep: "sep = c # cs"
    using Nil.prems(1) by (cases sep) auto
  have "splitFrom sep piece (c # cs @ u) = piece # splitFrom sep [] (drop (length sep) (c # cs @ u))"
    by (rule splitFrom_cut) (simp_all add: sep)
  then show ?case by (simp add: sep)
next
  case (Cons c p)
  have np: "\<not> prefix sep (c # p @ sep @ u)"
    using no_early_prefix[OF Cons.prems] by simp
  have ns: "\<not> sublist sep (p @ butlast sep)"
    using Cons.prems(2) by (auto simp: sublist_Cons_right)
  show ?case
    using Cons.IH[OF Cons.prems(1) ns, of "piece @ [c]"] splitFrom_skip[OF Cons.prems(1) np]
    by simp
qed

lemma splitFrom_upTo:
  assumes "sep \<noteq> []" and "upTo sep t p"
  shows "\<exists>rest. splitFrom sep [] t = p # rest"
  using assms splitFrom_first[of sep p "[]"] splitFrom_absent[of sep t "[]"]
  by (auto simp: upTo_def)

text \<open>
  Claim C5, as amended.  For non-empty delimiters: when \<open>left\<close> does not occur in the
  text the result is \<^verbatim>\<open>false\<close>; when it does, the result is the text that follows its
  first occurrence, cut before the next occurrence of \<open>left\<close> if there is one, and then
  before the first occurrence of \<open>right\<close> if there is one.  A missing \<open>right\<close> therefore
  gives the rest of that text, not \<^verbatim>\<open>false\<close>.  No input makes the function throw: its
  result is always one of the three values of \<open>extracted\<close>.  The two examples of the
  specification hold.
\<close>

theorem getString_extracts:
  fixes string left right :: "'a list"
  assumes "left \<noteq> []" and "right \<noteq> []"
  shows "(\<not> sublist left string \<longrightarrow> getString string left right = JsFalse)
       \<and> (string = before @ left @ after \<and> \<not> sublist left (before @ butlast left)
            \<and> upTo left after piece \<and> upTo right piece result
          \<longrightarrow> getString string left right = Text result)
       \<and> getString ''a=user: {x:1},\<newline>rest'' ''user: '' '',\<newline>'' = Text ''{x:1}''
       \<and> getString ''no marker here'' ''user: '' '',\<newline>'' = JsFalse"
proof (intro conjI impI)
  assume "\<not> sublist left string"
  then show "getString string left right = JsFalse"
    using assms(1) by (simp add: getString_def split_def splitFrom_absent)
next
  assume h: "string = before @ left @ after \<and> \<not> sublist left (before @ butlast left)
            \<and> upTo left after piece \<and> upTo right piece result"
  obtain rest where r1: "splitFrom left [] after = piece # rest"
    using splitFrom_upTo[OF assms(1)] h by blast
  obtain rest' where r2: "splitFrom right [] piece = result # rest'"
    using splitFrom_upTo[OF assms(2)] h by blast
  have "splitFrom left [] string = before # piece # rest"
    using splitFrom_first[OF assms(1), of before "[]" after] h r1 by simp
  then show "getString string left right = Text result"
    using assms r2 by (simp add: getString_def split_def)
next
  show "getString ''a=user: {x:1},\<newline>rest'' ''user: '' '',\<newline>'' = Text ''{x:1}''"
    by (simp add: getString_def split_def splitFrom_rules)
next
  show "getString ''no marker here'' ''user: '' '',\<newline>'' = JsFalse"
    by (simp add: getString_def split_def splitFrom_rules)
qed

theorem getString_extracts_witness:
  "getString ''k=AxyAzB'' ''A'' ''B'' = Text ''xy''
   \<and> getString ''k=AxyB'' ''A'' ''B'' = Text ''xy''
   \<and> getString ''k=Axy'' ''A'' ''B'' = Text ''xy''
   \<and> getString ''k=xy'' ''A'' ''B'' = JsFalse"
proof -
  have nA: "\<not> sublist ''A'' ''k=xy''" and nA0: "\<not> sublist ''A'' (''k='' @ butlast ''A'')"
    by (simp_all add: sublist_Cons_right)
  have u1: "upTo ''A'' ''xyAzB'' ''xy''" "upTo ''B'' ''xy'' ''xy''"
    and u2: "upTo ''A'' ''xyB'' ''xyB''" "upTo ''B'' ''xyB'' ''xy''"
    and u3: "upTo ''A'' ''xy'' ''xy''"
    by (simp_all add: upTo_def sublist_Cons_right)
  have g: "''A'' \<noteq> []" "''B'' \<noteq> []"
    by simp_all
  show ?thesis
    using getString_extracts[OF g, of "''k=xy''"] nA
      getString_extracts[OF g, of "''k=AxyAzB''" "''k=''" "''xyAzB''" "''xy''" "''xy''"]
      getString_extracts[OF g, of "''k=AxyB''" "''k=''" "''xyB''" "''xyB''" "''xy''"]
      getString_extracts[OF g, of "''k=Axy''" "''k=''" "''xy''" "''xy''" "''xy''"]
      nA0 u1 u2 u3
    by simp
qed

text \<open>
  Claim C5 as stated fails: in \<^verbatim>\<open>getString("user: abc", "user: ", ",\n")\<close> the right
  delimiter is absent from the text, and the result is \<^verbatim>\<open>"abc"\<close>, not \<^verbatim>\<open>false\<close>.
\<close>

theorem getString_right_absent_counterexample:
  "\<not> sublist '',\<newline>'' ''user: abc''
   \<and> getString ''user: abc'' ''user: '' '',\<newline>'' = Text ''abc''"
  by (simp add: getString_def split_def splitFrom_rules sublist_Cons_right)

section \<open>Properties of the transformers\<close>

subsection \<open>Computations that may throw\<close>

lemma andThen_Inr [simp]: "andThen (Inr v) f = f v"
  by (simp add: andThen_def)

lemma andThen_Inl [simp]: "andThen (Inl e) f = Inl e"
  by (simp add: andThen_def)

lemma andThen_eq_Inr: "andThen r f = Inr y \<longleftrightarrow> (\<exists>v. r = Inr v \<and> f v = Inr y)"
  by (cases r) simp_all

lemma truthy_not_nullish: "truthy v \<Longrightarrow> \<not> nullish v"
  by (cases v) simp_all

lemma getProp_present: "\<not> nullish v \<Longrightarrow> getProp v k = Inr (propOf v k)"
  by (cases v) (simp_all add: getProp_def)

lemma getProp_eq_Inr: "getProp v k = Inr w \<longleftrightarrow> \<not> nullish v \<and> w = propOf v k"
  by (cases v) (auto simp: getProp_def)

lemma filterE_pure: "\<forall>x\<in>set xs. p x = Inr (q x) \<Longrightarrow> filterE p xs = Inr (filter q xs)"
  by (induction xs) simp_all

lemma mapE_pure: "\<forall>x\<in>set xs. f x = Inr (g x) \<Longrightarrow> mapE f xs = Inr (map g xs)"
  by (induction xs) simp_all

lemma filterE_subset: "filterE p xs = Inr ys \<Longrightarrow> set ys \<subseteq> {x \<in> set xs. p x = Inr True}"
proof (induction xs arbitrary: ys)
  case Nil
  then show ?case by simp
next
  case (Cons x xs)
  then show ?case
    by (auto simp: andThen_eq_Inr split: if_splits)
qed

lemma mapE_image: "mapE f xs = Inr ys \<Longrightarrow> y \<in> set ys \<Longrightarrow> \<exists>x\<in>set xs. f x = Inr y"
proof (induction xs arbitrary: ys)
  case Nil
  then show ?case by simp
next
  case (Cons x xs)
  from Cons.prems(1) obtain v vs where v: "f x = Inr v" "mapE f xs = Inr vs" "ys = v # vs"
    by (auto simp: andThen_eq_Inr)
  show ?case
  proof (cases "y = v")
    case True
    then show ?thesis using v by simp
  next
    case False
    then have "y \<in> set vs" using Cons.prems(2) v by simp
    then show ?thesis using Cons.IH[OF v(2)] by auto
  qed
qed

lemma mapSet_values: "snd ` set (mapSet m k v) \<subseteq> insert v (snd ` set m)"
proof (induction m)
  case Nil
  then show ?case by simp
next
  case (Cons kv m)
  obtain k' v' where kv: "kv = (k', v')" by (cases kv)
  show ?case
    using Cons.IH by (cases "sameValueZero k' k") (auto simp: kv)
qed

lemma newMap_values: "set (mapValues (newMap pairs)) \<subseteq> snd ` set pairs"
proof -
  have "snd ` set (foldl (\<lambda>m (k, v). mapSet m k v) m pairs) \<subseteq> snd ` set m \<union> snd ` set pairs" for m :: "(jsval \<times> 'a) list"
  proof (induction pairs arbitrary: m)
    case Nil
    then show ?case by simp
  next
    case (Cons kv pairs)
    obtain k v where kv: "kv = (k, v)" by (cases kv)
    show ?case
      using Cons.IH[of "mapSet m k v"] mapSet_values[of m k v] by (auto simp: kv)
  qed
  from this[of "[]"] show ?thesis by (simp add: mapValues_def newMap_def)
qed

lemma keepEnrollment_pure:
  "\<not> nullish e \<Longrightarrow> keepEnrollment e =
     Inr (truthy (propOf e ''course'') \<and> \<not> truthy (propOf (propOf e ''course'') ''isOrganization''))"
  by (simp add: keepEnrollment_def getProp_present truthy_not_nullish)

lemma toCourse_pure:
  "truthy (propOf e ''course'') \<Longrightarrow> toCourse e =
     Inr (JObj [(''courseId'', propOf (propOf e ''course'') ''courseId''),
                (''courseName'', propOf (propOf e ''course'') ''name''),
                (''id'', propOf (propOf e ''course'') ''id'')])"
proof -
  assume t: "truthy (propOf e ''course'')"
  then have "\<not> nullish e" by (cases e) auto
  then show ?thesis using t by (simp add: toCourse_def getProp_present truthy_not_nullish)
qed

subsection \<open>The courses transformer\<close>

text \<open>
  Claim C7, as amended.  An input that is falsy or whose \<^verbatim>\<open>results\<close> is not an array
  gives \<^verbatim>\<open>{courses: []}\<close> and one diagnostic line, without throwing.  Otherwise, when no
  element of \<^verbatim>\<open>results\<close> is \<^verbatim>\<open>null\<close> or \<^verbatim>\<open>undefined\<close>, the result holds, in order,
  exactly the records whose \<^verbatim>\<open>course\<close> is truthy and whose \<^verbatim>\<open>course.isOrganization\<close>
  is falsy, each as \<^verbatim>\<open>{courseId: course.courseId, courseName: course.name, id: course.id}\<close>.
  The example of the specification holds.
\<close>

theorem getCoursesAsJson_transforms:
  "(\<not> truthy input \<or> \<not> isArray (propOf input ''results'')
      \<longrightarrow> (\<exists>line. getCoursesAsJson input = Inr ([line], JObj [(''courses'', JArr [])])))
   \<and> (truthy input \<and> propOf input ''results'' = JArr results \<and> (\<forall>e\<in>set results. \<not> nullish e)
      \<longrightarrow> getCoursesAsJson input =
            Inr ([], JObj [(''courses'', JArr
              (map (\<lambda>e. JObj [(''courseId'', propOf (propOf e ''course'') ''courseId''),
                               (''courseName'', propOf (propOf e ''course'') ''name''),
                               (''id'', propOf (propOf e ''course'') ''id'')])
                 (filter (\<lambda>e. truthy (propOf e ''course'')
                               \<and> \<not> truthy (propOf (propOf e ''course'') ''isOrganization''))
                    results)))]))
   \<and> getCoursesAsJson (JObj [(''results'', JArr
          [JObj [(''course'', JObj [(''courseId'', JStr ''A-1''), (''name'', JStr ''Intro''),
                                    (''id'', JStr ''_1_1''), (''isOrganization'', JBool False)])],
           JObj [(''course'', JObj [(''isOrganization'', JBool True)])]])])
       = Inr ([], JObj [(''courses'', JArr
          [JObj [(''courseId'', JStr ''A-1''), (''courseName'', JStr ''Intro''), (''id'', JStr ''_1_1'')]])])"
proof (intro conjI impI)
  assume "\<not> truthy input \<or> \<not> isArray (propOf input ''results'')"
  then show "\<exists>line. getCoursesAsJson input = Inr ([line], JObj [(''courses'', JArr [])])"
    by (cases "propOf input ''results''") (auto simp: getCoursesAsJson_def coursesInvalid_def)
next
  assume h: "truthy input \<and> propOf input ''results'' = JArr results \<and> (\<forall>e\<in>set results. \<not> nullish e)"
  let ?q = "\<lambda>e. truthy (propOf e ''course'') \<and> \<not> truthy (propOf (propOf e ''course'') ''isOrganization'')"
  have f: "filterE keepEnrollment results = Inr (filter ?q results)"
    using h by (intro filterE_pure) (simp add: keepEnrollment_pure)
  have m: "mapE toCourse (filter ?q results) =
      Inr (map (\<lambda>e. JObj [(''courseId'', propOf (propOf e ''course'') ''courseId''),
                          (''courseName'', propOf (propOf e ''course'') ''name''),
                          (''id'', propOf (propOf e ''course'') ''id'')]) (filter ?q results))"
    by (intro mapE_pure) (simp add: toCourse_pure)
  show "getCoursesAsJson input =
            Inr ([], JObj [(''courses'', JArr
              (map (\<lambda>e. JObj [(''courseId'', propOf (propOf e ''course'') ''courseId''),
                               (''courseName'', propOf (propOf e ''course'') ''name''),
                               (''id'', propOf (propOf e ''course'') ''id'')])
                 (filter ?q results)))])"
    using h by (simp add: getCoursesAsJson_def f m)
next
  show "getCoursesAsJson (JObj [(''results'', JArr
          [JObj [(''course'', JObj [(''courseId'', JStr ''A-1''), (''name'', JStr ''Intro''),
                                    (''id'', JStr ''_1_1''), (''isOrganization'', JBool False)])],
           JObj [(''course'', JObj [(''isOrganization'', JBool True)])]])])
       = Inr ([], JObj [(''courses'', JArr
          [JObj [(''courseId'', JStr ''A-1''), (''courseName'', JStr ''Intro''), (''id'', JStr ''_1_1'')]])])"
    by (simp add: getCoursesAsJson_def keepEnrollment_def toCourse_def getProp_def)
qed

theorem getCoursesAsJson_transforms_witness:
  "getCoursesAsJson (JObj [(''results'', JArr
      [JObj [(''course'', JObj [(''courseId'', JStr ''B-2''), (''name'', JStr ''Logic''), (''id'', JStr ''_2_1'')])],
       JObj [(''role'', JStr ''Student'')]])])
     = Inr ([], JObj [(''courses'', JArr
         [JObj [(''courseId'', JStr ''B-2''), (''courseName'', JStr ''Logic''), (''id'', JStr ''_2_1'')]])])
   \<and> (\<exists>line. getCoursesAsJson (JObj [(''results'', JStr ''none'')])
         = Inr ([line], JObj [(''courses'', JArr [])]))"
  using getCoursesAsJson_transforms
    [of "JObj [(''results'', JArr
      [JObj [(''course'', JObj [(''courseId'', JStr ''B-2''), (''name'', JStr ''Logic''), (''id'', JStr ''_2_1'')])],
       JObj [(''role'', JStr ''Student'')]])]"
      "[JObj [(''course'', JObj [(''courseId'', JStr ''B-2''), (''name'', JStr ''Logic''), (''id'', JStr ''_2_1'')])],
        JObj [(''role'', JStr ''Student'')]]"]
    getCoursesAsJson_transforms [of "JObj [(''results'', JStr ''none'')]"]
  by simp

text \<open>
  Claim C7 as stated fails: for \<^verbatim>\<open>{results: [null]}\<close> the input has a results array,
  and the filter callback reads \<^verbatim>\<open>null.course\<close>, which throws a TypeError.
\<close>

theorem getCoursesAsJson_null_record_counterexample:
  "getCoursesAsJson (JObj [(''results'', JArr [JNull])])
     = Inl (TypeError (''Cannot read properties of null (reading '' @ [CHR 0x27] @ ''course'' @ [CHR 0x27] @ '')''))"
  by (simp add: getCoursesAsJson_def keepEnrollment_def getProp_def)

subsection \<open>The activity transformer\<close>

lemma mapGet_absent: "\<forall>kv\<in>set m. \<not> sameValueZero (fst kv) k \<Longrightarrow> mapGet m k = JUndefined"
  by (induction m) auto

lemma mapSet_keys: "fst ` set (mapSet m k v) \<subseteq> insert k (fst ` set m)"
proof (induction m)
  case Nil
  then show ?case by simp
next
  case (Cons kv m)
  obtain k' v' where kv: "kv = (k', v')" by (cases kv)
  show ?case
    using Cons.IH by (cases "sameValueZero k' k") (auto simp: kv)
qed

lemma setCourses_keys:
  "setCourses m courses = Inr m' \<Longrightarrow>
     fst ` set m' \<subseteq> fst ` set m \<union> (\<lambda>course. propOf course ''id'') ` set courses"
proof (induction courses arbitrary: m)
  case Nil
  then show ?case by simp
next
  case (Cons course courses)
  from Cons.prems have n: "\<not> nullish course"
    and r: "setCourses (mapSet m (propOf course ''id'') (propOf course ''name'')) courses = Inr m'"
    by (auto simp: andThen_eq_Inr getProp_eq_Inr)
  show ?case
    using Cons.IH[OF r] mapSet_keys[of m "propOf course ''id''" "propOf course ''name''"] by auto
qed

lemma buildCourseMap_keys:
  assumes "buildCourseMap (JArr courses) = Inr courseMap"
  shows "fst ` set courseMap \<subseteq> (\<lambda>course. propOf course ''id'') ` set courses"
  using assms setCourses_keys[of "[]" courses courseMap] by (simp add: buildCourseMap_def)

lemma mapGet_no_course:
  assumes "buildCourseMap (JArr courses) = Inr courseMap"
    and "\<forall>course\<in>set courses. propOf course ''id'' \<noteq> k"
  shows "mapGet courseMap k = JUndefined"
proof (rule mapGet_absent)
  show "\<forall>kv\<in>set courseMap. \<not> sameValueZero (fst kv) k"
  proof
    fix kv
    assume "kv \<in> set courseMap"
    then have "fst kv \<in> (\<lambda>course. propOf course ''id'') ` set courses"
      using buildCourseMap_keys[OF assms(1)] by blast
    then have "fst kv \<noteq> k"
      using assms(2) by auto
    then show "\<not> sameValueZero (fst kv) k"
      by (simp add: sameValueZero_def)
  qed
qed

lemma kept_entry_shape:
  assumes "assignmentOrTest entry = Inr True"
  shows "\<not> nullish entry \<and> \<not> nullish (propOf entry ''itemSpecificData'')
         \<and> \<not> nullish (propOf (propOf entry ''itemSpecificData'') ''notificationDetails'')"
  using assms
  by (auto simp: assignmentOrTest_def andThen_eq_Inr getProp_eq_Inr optChain_def Let_def split: if_splits)

lemma toActivity_result:
  assumes "toActivity courseMap entry = Inr act"
  shows "act = JObj
         [(''activityName'', orElse (propOf (propOf entry ''itemSpecificData'') ''title'') (JStr ''Untitled Activity'')),
          (''courseName'', orElse (mapGet courseMap (propOf entry ''se_courseId'')) (JStr ''Unknown Course'')),
          (''type'', if propOf (propOf (propOf entry ''itemSpecificData'') ''notificationDetails'') ''sourceType'' = JStr ''UA''
                     then JStr ''Assignment'' else JStr ''Test''),
          (''dueDate'', orElse (propOf (propOf (propOf entry ''itemSpecificData'') ''notificationDetails'') ''dueDate'') JNull),
          (''givenDate'', orElse (propOf (propOf (propOf entry ''itemSpecificData'') ''notificationDetails'') ''startDate'') JNull)]"
  using assms by (auto simp: toActivity_def andThen_eq_Inr getProp_eq_Inr)

lemma toActivity_names:
  assumes "toActivity courseMap entry = Inr act"
  shows "truthy (propOf act ''activityName'') \<and> truthy (propOf act ''courseName'')"
  unfolding toActivity_result[OF assms] by (simp add: orElse_def)

lemma truthy_values: "truthy v \<Longrightarrow> v \<notin> {JUndefined, JNull, JBool False, JNum 0, JStr ''''}"
  by (cases v) auto

lemma activityKey_snd: "activityKey act = Inr p \<Longrightarrow> snd p = act"
  by (auto simp: activityKey_def andThen_eq_Inr)

text \<open>
  Claim C8, as amended.  When the input is falsy, or its \<^verbatim>\<open>sv_streamEntries\<close> or its
  \<^verbatim>\<open>sv_extras\<close> is missing or falsy, the transformer returns \<^verbatim>\<open>{activities: []}\<close>
  with one diagnostic line and does not throw.
\<close>

theorem getActivitiesAsJson_invalid:
  "\<not> truthy input \<or> \<not> truthy (propOf input ''sv_streamEntries'') \<or> \<not> truthy (propOf input ''sv_extras'')
   \<Longrightarrow> getActivitiesAsJson input =
         Inr ([''Invalid or incomplete data object provided.''], JObj [(''activities'', JArr [])])"
  by (auto simp: getActivitiesAsJson_def activitiesInvalid_def)

theorem getActivitiesAsJson_invalid_witness:
  "getActivitiesAsJson (JObj [(''sv_extras'', JObj [])])
     = Inr ([''Invalid or incomplete data object provided.''], JObj [(''activities'', JArr [])])
   \<and> getActivitiesAsJson JNull
     = Inr ([''Invalid or incomplete data object provided.''], JObj [(''activities'', JArr [])])"
  using getActivitiesAsJson_invalid [of "JObj [(''sv_extras'', JObj [])]"]
    getActivitiesAsJson_invalid [of JNull]
  by simp

text \<open>
  Claim C8 as stated fails: \<^verbatim>\<open>{sv_streamEntries: 1, sv_extras: 1}\<close> does not provide the
  expected structure, both members are truthy, and calling \<^verbatim>\<open>filter\<close> on the number
  throws a TypeError.
\<close>

theorem getActivitiesAsJson_throws_counterexample:
  "getActivitiesAsJson (JObj [(''sv_streamEntries'', JNum 1), (''sv_extras'', JNum 1)])
     = Inl (TypeError ''streamDataObject.sv_streamEntries.filter is not a function'')"
  by (simp add: getActivitiesAsJson_def buildCourseMap_def)

text \<open>
  Claim C9 at an input where the code departs from it.  The stream has two kept entries,
  \<^verbatim>\<open>Quiz-1\<close> of course \<^verbatim>\<open>Math\<close> and \<^verbatim>\<open>Quiz\<close> of course \<^verbatim>\<open>1-Math\<close>.  Their
  (activityName, courseName) pairs differ, their keys are both \<^verbatim>\<open>Quiz-1-Math\<close>, and the
  result holds the second entry only: no entry for the pair (\<^verbatim>\<open>Quiz-1\<close>, \<^verbatim>\<open>Math\<close>)
  survives.
\<close>

theorem getActivitiesAsJson_key_collision:
  "getActivitiesAsJson (JObj
     [(''sv_streamEntries'', JArr
        [JObj [(''providerId'', JStr ''bb-nautilus''), (''se_courseId'', JStr ''_1''),
               (''itemSpecificData'', JObj [(''title'', JStr ''Quiz-1''),
                  (''notificationDetails'', JObj [(''sourceType'', JStr ''UA'')])])],
         JObj [(''providerId'', JStr ''bb-nautilus''), (''se_courseId'', JStr ''_2''),
               (''itemSpecificData'', JObj [(''title'', JStr ''Quiz''),
                  (''notificationDetails'', JObj [(''sourceType'', JStr ''UA'')])])]]),
      (''sv_extras'', JObj [(''sx_courses'', JArr
        [JObj [(''id'', JStr ''_1''), (''name'', JStr ''Math'')],
         JObj [(''id'', JStr ''_2''), (''name'', JStr ''1-Math'')]])])])
   = Inr ([], JObj [(''activities'', JArr
        [JObj [(''activityName'', JStr ''Quiz''), (''courseName'', JStr ''1-Math''),
               (''type'', JStr ''Assignment''), (''dueDate'', JNull), (''givenDate'', JNull)]])])"
  by (simp add: getActivitiesAsJson_def buildCourseMap_def fromNautilus_def assignmentOrTest_def
      toActivity_def activityKey_def newMap_def mapValues_def getProp_def optChain_def orElse_def
      sameValueZero_def)

theorem getActivitiesAsJson_key_collision_witness:
  "\<exists>acts. getActivitiesAsJson (JObj
     [(''sv_streamEntries'', JArr
        [JObj [(''providerId'', JStr ''bb-nautilus''), (''se_courseId'', JStr ''_1''),
               (''itemSpecificData'', JObj [(''title'', JStr ''Quiz-1''),
                  (''notificationDetails'', JObj [(''sourceType'', JStr ''UA'')])])],
         JObj [(''providerId'', JStr ''bb-nautilus''), (''se_courseId'', JStr ''_2''),
               (''itemSpecificData'', JObj [(''title'', JStr ''Quiz''),
                  (''notificationDetails'', JObj [(''sourceType'', JStr ''UA'')])])]]),
      (''sv_extras'', JObj [(''sx_courses'', JArr
        [JObj [(''id'', JStr ''_1''), (''name'', JStr ''Math'')],
         JObj [(''id'', JStr ''_2''), (''name'', JStr ''1-Math'')]])])])
     = Inr ([], JObj [(''activities'', JArr acts)])
   \<and> length acts = 1
   \<and> map (\<lambda>a. propOf a ''activityName'') acts = [JStr ''Quiz'']"
  using getActivitiesAsJson_key_collision by simp

text \<open>
  Claim C10, as amended.  An entry that passes both filters is mapped without throwing.
  In the mapped record, a falsy or missing title gives the name \<^verbatim>\<open>Untitled Activity\<close>,
  a course id that is the id of no course of the lookup table gives \<^verbatim>\<open>Unknown Course\<close>,
  and a missing \<^verbatim>\<open>dueDate\<close> or \<^verbatim>\<open>startDate\<close> gives \<^verbatim>\<open>null\<close>.  Whenever the
  transformer returns, every record of its \<^verbatim>\<open>activities\<close> array has a truthy
  \<^verbatim>\<open>activityName\<close> and \<^verbatim>\<open>courseName\<close>: neither is \<^verbatim>\<open>undefined\<close>, \<^verbatim>\<open>null\<close>,
  \<^verbatim>\<open>false\<close>, \<^verbatim>\<open>0\<close> or the empty string.
\<close>

theorem toActivity_defaults:
  "(fromNautilus entry = Inr True \<and> assignmentOrTest entry = Inr True
      \<longrightarrow> (\<exists>act. toActivity courseMap entry = Inr act))
   \<and> (toActivity courseMap entry = Inr act \<longrightarrow>
        (\<not> truthy (propOf (propOf entry ''itemSpecificData'') ''title'')
           \<longrightarrow> propOf act ''activityName'' = JStr ''Untitled Activity'')
      \<and> (buildCourseMap (JArr courses) = Inr courseMap
           \<and> (\<forall>course\<in>set courses. propOf course ''id'' \<noteq> propOf entry ''se_courseId'')
           \<longrightarrow> propOf act ''courseName'' = JStr ''Unknown Course'')
      \<and> (propOf (propOf (propOf entry ''itemSpecificData'') ''notificationDetails'') ''dueDate'' = JUndefined
           \<longrightarrow> propOf act ''dueDate'' = JNull)
      \<and> (propOf (propOf (propOf entry ''itemSpecificData'') ''notificationDetails'') ''startDate'' = JUndefined
           \<longrightarrow> propOf act ''givenDate'' = JNull))
   \<and> (getActivitiesAsJson input = Inr (diagnostics, out) \<longrightarrow>
        (\<exists>acts. out = JObj [(''activities'', JArr acts)]
           \<and> (\<forall>a\<in>set acts. truthy (propOf a ''activityName'') \<and> truthy (propOf a ''courseName'')
                \<and> propOf a ''activityName'' \<notin> {JUndefined, JNull, JBool False, JNum 0, JStr ''''}
                \<and> propOf a ''courseName'' \<notin> {JUndefined, JNull, JBool False, JNum 0, JStr ''''})))"
proof (intro conjI impI)
  assume "fromNautilus entry = Inr True \<and> assignmentOrTest entry = Inr True"
  then show "\<exists>act. toActivity courseMap entry = Inr act"
    using kept_entry_shape[of entry] by (simp add: toActivity_def getProp_present)
next
  assume a: "toActivity courseMap entry = Inr act"
  { assume "\<not> truthy (propOf (propOf entry ''itemSpecificData'') ''title'')"
    then show "propOf act ''activityName'' = JStr ''Untitled Activity''"
      unfolding toActivity_result[OF a] by (simp add: orElse_def) }
  { assume "buildCourseMap (JArr courses) = Inr courseMap
           \<and> (\<forall>course\<in>set courses. propOf course ''id'' \<noteq> propOf entry ''se_courseId'')"
    then have "mapGet courseMap (propOf entry ''se_courseId'') = JUndefined"
      using mapGet_no_course by blast
    then show "propOf act ''courseName'' = JStr ''Unknown Course''"
      unfolding toActivity_result[OF a] by (simp add: orElse_def) }
  { assume "propOf (propOf (propOf entry ''itemSpecificData'') ''notificationDetails'') ''dueDate'' = JUndefined"
    then show "propOf act ''dueDate'' = JNull"
      unfolding toActivity_result[OF a] by (simp add: orElse_def) }
  { assume "propOf (propOf (propOf entry ''itemSpecificData'') ''notificationDetails'') ''startDate'' = JUndefined"
    then show "propOf act ''givenDate'' = JNull"
      unfolding toActivity_result[OF a] by (simp add: orElse_def) }
next
  assume r: "getActivitiesAsJson input = Inr (diagnostics, out)"
  show "\<exists>acts. out = JObj [(''activities'', JArr acts)]
           \<and> (\<forall>a\<in>set acts. truthy (propOf a ''activityName'') \<and> truthy (propOf a ''courseName'')
                \<and> propOf a ''activityName'' \<notin> {JUndefined, JNull, JBool False, JNum 0, JStr ''''}
                \<and> propOf a ''courseName'' \<notin> {JUndefined, JNull, JBool False, JNum 0, JStr ''''})"
  proof (cases "\<not> truthy input \<or> \<not> truthy (propOf input ''sv_streamEntries'')
         \<or> \<not> truthy (propOf input ''sv_extras'')")
    case True
    then have "out = JObj [(''activities'', JArr [])]"
      using r by (auto simp: getActivitiesAsJson_def activitiesInvalid_def)
    then show ?thesis by simp
  next
    case False
    then obtain courseMap where
      c: "(case propOf input ''sv_streamEntries'' of
          JArr sv_streamEntries \<Rightarrow>
            andThen (filterE fromNautilus sv_streamEntries) (\<lambda>nautilus.
            andThen (filterE assignmentOrTest nautilus) (\<lambda>kept.
            andThen (mapE (toActivity courseMap) kept) (\<lambda>allActivities.
            andThen (mapE activityKey allActivities) (\<lambda>pairs.
              Inr ([], JObj [(''activities'', JArr (mapValues (newMap pairs)))])))))
        | _ \<Rightarrow> Inl (TypeError ''streamDataObject.sv_streamEntries.filter is not a function''))
        = Inr (diagnostics, out)"
      using r by (auto simp: getActivitiesAsJson_def andThen_eq_Inr)
    then obtain entries where "propOf input ''sv_streamEntries'' = JArr entries"
      by (cases "propOf input ''sv_streamEntries''") simp_all
    with c obtain kept allActivities pairs where
      m: "mapE (toActivity courseMap) kept = Inr allActivities"
      and k: "mapE activityKey allActivities = Inr pairs"
      and out: "out = JObj [(''activities'', JArr (mapValues (newMap pairs)))]"
      by (auto simp: andThen_eq_Inr)
    have "truthy (propOf a ''activityName'') \<and> truthy (propOf a ''courseName'')
        \<and> propOf a ''activityName'' \<notin> {JUndefined, JNull, JBool False, JNum 0, JStr ''''}
        \<and> propOf a ''courseName'' \<notin> {JUndefined, JNull, JBool False, JNum 0, JStr ''''}"
      if "a \<in> set (mapValues (newMap pairs))" for a
    proof -
      from that obtain p where p: "p \<in> set pairs" "snd p = a"
        using newMap_values[of pairs] by auto
      then obtain b where b: "b \<in> set allActivities" "activityKey b = Inr p"
        using mapE_image[OF k] by blast
      then have "a \<in> set allActivities"
        using activityKey_snd p by blast
      then obtain e where "toActivity courseMap e = Inr a"
        using mapE_image[OF m] by blast
      then have "truthy (propOf a ''activityName'') \<and> truthy (propOf a ''courseName'')"
        by (rule toActivity_names)
      then show ?thesis
        using truthy_values by blast
    qed
    then show ?thesis using out by blast
  qed
qed

theorem toActivity_defaults_witness:
  "fromNautilus (JObj [(''providerId'', JStr ''bb-nautilus''), (''se_courseId'', JStr ''_9''),
       (''itemSpecificData'', JObj [(''notificationDetails'', JObj [(''sourceType'', JStr ''TE'')])])]) = Inr True
   \<and> assignmentOrTest (JObj [(''providerId'', JStr ''bb-nautilus''), (''se_courseId'', JStr ''_9''),
       (''itemSpecificData'', JObj [(''notificationDetails'', JObj [(''sourceType'', JStr ''TE'')])])]) = Inr True
   \<and> (\<exists>act. toActivity [(JStr ''_1'', JStr ''Math'')]
        (JObj [(''providerId'', JStr ''bb-nautilus''), (''se_courseId'', JStr ''_9''),
          (''itemSpecificData'', JObj [(''notificationDetails'', JObj [(''sourceType'', JStr ''TE'')])])]) = Inr act
        \<and> propOf act ''activityName'' = JStr ''Untitled Activity''
        \<and> propOf act ''courseName'' = JStr ''Unknown Course''
        \<and> propOf act ''dueDate'' = JNull \<and> propOf act ''givenDate'' = JNull)
   \<and> (\<exists>diagnostics acts. getActivitiesAsJson (JObj
        [(''sv_streamEntries'', JArr [JObj [(''providerId'', JStr ''bb-nautilus''), (''se_courseId'', JStr ''_9''),
          (''itemSpecificData'', JObj [(''notificationDetails'', JObj [(''sourceType'', JStr ''TE'')])])]]),
         (''sv_extras'', JObj [])]) = Inr (diagnostics, JObj [(''activities'', JArr acts)])
        \<and> acts \<noteq> []
        \<and> (\<forall>a\<in>set acts. truthy (propOf a ''activityName'') \<and> truthy (propOf a ''courseName'')))"
proof -
  let ?e = "JObj [(''providerId'', JStr ''bb-nautilus''), (''se_courseId'', JStr ''_9''),
       (''itemSpecificData'', JObj [(''notificationDetails'', JObj [(''sourceType'', JStr ''TE'')])])]"
  let ?m = "[(JStr ''_1'', JStr ''Math'')]"
  let ?a = "JObj [(''activityName'', JStr ''Untitled Activity''), (''courseName'', JStr ''Unknown Course''),
       (''type'', JStr ''Test''), (''dueDate'', JNull), (''givenDate'', JNull)]"
  let ?i = "JObj [(''sv_streamEntries'', JArr [?e]), (''sv_extras'', JObj [])]"
  have f: "fromNautilus ?e = Inr True" "assignmentOrTest ?e = Inr True"
    by (simp_all add: fromNautilus_def assignmentOrTest_def getProp_def optChain_def)
  have t: "toActivity ?m ?e = Inr ?a"
    by (simp add: toActivity_def getProp_def orElse_def sameValueZero_def)
  have g: "getActivitiesAsJson ?i = Inr ([], JObj [(''activities'', JArr [?a])])"
    by (simp add: getActivitiesAsJson_def buildCourseMap_def fromNautilus_def assignmentOrTest_def
      toActivity_def activityKey_def newMap_def mapValues_def getProp_def optChain_def orElse_def
      sameValueZero_def)
  let ?c = "[JObj [(''id'', JStr ''_1''), (''name'', JStr ''Math'')]]"
  have k: "buildCourseMap (JArr ?c) = Inr ?m"
    "\<forall>course\<in>set ?c. propOf course ''id'' \<noteq> propOf ?e ''se_courseId''"
    by (simp_all add: buildCourseMap_def getProp_def)
  have d: "propOf ?a ''activityName'' = JStr ''Untitled Activity''
      \<and> propOf ?a ''courseName'' = JStr ''Unknown Course''
      \<and> propOf ?a ''dueDate'' = JNull \<and> propOf ?a ''givenDate'' = JNull"
    using toActivity_defaults [where entry = ?e and courseMap = ?m and act = ?a and courses = ?c] t k
    by simp
  have n: "\<forall>a\<in>set [?a]. truthy (propOf a ''activityName'') \<and> truthy (propOf a ''courseName'')"
    using toActivity_defaults [where input = ?i and diagnostics = "[]"
        and out = "JObj [(''activities'', JArr [?a])]"] g
    by simp
  show ?thesis
    using f t g d n by blast
qed

text \<open>
  Claim C10 as stated fails: a title and a course name that are the empty array are
  truthy, so no default replaces them, and the output record carries the empty array,
  which prints as the empty string, as its \<^verbatim>\<open>activityName\<close> and \<^verbatim>\<open>courseName\<close>.
\<close>

theorem toActivity_empty_array_counterexample:
  "getActivitiesAsJson (JObj
     [(''sv_streamEntries'', JArr
        [JObj [(''providerId'', JStr ''bb-nautilus''), (''se_courseId'', JStr ''_1''),
               (''itemSpecificData'', JObj [(''title'', JArr []),
                  (''notificationDetails'', JObj [(''sourceType'', JStr ''UA'')])])]]),
      (''sv_extras'', JObj [(''sx_courses'', JArr
        [JObj [(''id'', JStr ''_1''), (''name'', JArr [])]])])])
   = Inr ([], JObj [(''activities'', JArr
        [JObj [(''activityName'', JArr []), (''courseName'', JArr []),
               (''type'', JStr ''Assignment''), (''dueDate'', JNull), (''givenDate'', JNull)]])])
   \<and> toString (JArr []) = Inr ''''"
  by (simp add: getActivitiesAsJson_def buildCourseMap_def fromNautilus_def assignmentOrTest_def
      toActivity_def activityKey_def newMap_def mapValues_def getProp_def optChain_def orElse_def
      sameValueZero_def)

section \<open>Properties of the coordinator\<close>

lemmas coordinator_defs = pending_def gate_def draining_def executed_def

lemma drainLoop_cases:
  "drainLoop (q, g, d, x) = (case q of [] \<Rightarrow> ([], g, False, x) | a # r \<Rightarrow> (r, g, d, x @ [a]))"
  by (cases q) simp_all

lemma coordinated_enqueue: "coordinated c \<Longrightarrow> coordinated (enqueue a c)"
  by (cases c) (auto simp: coordinated_def coordinator_defs drainLoop_cases split: list.splits)

lemma coordinated_openGate: "coordinated c \<Longrightarrow> coordinated (openGate c)"
  by (cases c) (auto simp: coordinated_def coordinator_defs drainLoop_cases split: list.splits)

lemma coordinated_settle: "coordinated c \<Longrightarrow> coordinated (settle c)"
  by (cases c) (auto simp: coordinated_def coordinator_defs drainLoop_cases split: list.splits)

lemma kept_enqueue: "executed (enqueue a c) @ pending (enqueue a c) = executed c @ pending c @ [a]"
  by (cases c) (auto simp: coordinator_defs drainLoop_cases split: list.splits)

lemma kept_openGate: "executed (openGate c) @ pending (openGate c) = executed c @ pending c"
  by (cases c) (auto simp: coordinator_defs drainLoop_cases split: list.splits)

lemma kept_settle: "executed (settle c) @ pending (settle c) = executed c @ pending c"
  by (cases c) (auto simp: coordinator_defs drainLoop_cases split: list.splits)

lemma settle_drains:
  "(settle ^^ Suc (length q)) (q, g, True, x) = ([], g, False, x @ q)"
proof (induction q arbitrary: x)
  case Nil
  then show ?case by simp
next
  case (Cons a q)
  have "(settle ^^ Suc (length (a # q))) (a # q, g, True, x) = (settle ^^ Suc (length q)) (settle (a # q, g, True, x))"
    by (simp only: funpow_Suc_right o_apply length_Cons)
  then show ?case using Cons.IH[of "x @ [a]"] by simp
qed

lemma settle_idle: "(settle ^^ n) (q, g, False, x) = (q, g, False, x)"
  by (induction n) simp_all

lemma openGate_settle_drains:
  "(settle ^^ length q) (openGate (q, g, False, x)) = ([], True, False, x @ q)"
proof (cases q)
  case Nil
  then show ?thesis by simp
next
  case (Cons a r)
  then show ?thesis using settle_drains[of r True "x @ [a]"] by simp
qed


section \<open>The engine's queues are coordinators\<close>

lemma log_update:
  "log level message s = s\<lparr>emitted := emitted s @
     [(''log'', JObj [(''date'', JNum (int (dateNow s))), (''level'', JStr level), (''message'', JStr message)])]\<rparr>"
  by (simp add: log_def emit_def)

lemma browserView_update [simp]:
  "browserView (s\<lparr>emitted := em\<rparr>) = browserView s"
  "browserView (s\<lparr>console := co\<rparr>) = browserView s"
  "browserView (s\<lparr>initialized := ini\<rparr>) = browserView s"
  "browserView (s\<lparr>apiActionThrew := th\<rparr>) = browserView s"
  "browserView (s\<lparr>cookie := c\<rparr>) = browserView s"
  "browserView (s\<lparr>userData := u\<rparr>) = browserView s"
  "browserView (s\<lparr>dateNow := d\<rparr>) = browserView s"
  "browserView (s\<lparr>apiActionQueue := q\<rparr>) = browserView s"
  "browserView (s\<lparr>isApiReady := b\<rparr>) = browserView s"
  "browserView (s\<lparr>isProcessingApiQueue := b\<rparr>) = browserView s"
  "browserView (s\<lparr>apiCalls := q\<rparr>) = browserView s"
  by (simp_all add: browserView_def)

lemma apiView_update [simp]:
  "apiView (s\<lparr>emitted := em\<rparr>) = apiView s"
  "apiView (s\<lparr>console := co\<rparr>) = apiView s"
  "apiView (s\<lparr>initialized := ini\<rparr>) = apiView s"
  "apiView (s\<lparr>apiActionThrew := th\<rparr>) = apiView s"
  "apiView (s\<lparr>cookie := c\<rparr>) = apiView s"
  "apiView (s\<lparr>userData := u\<rparr>) = apiView s"
  "apiView (s\<lparr>dateNow := d\<rparr>) = apiView s"
  "apiView (s\<lparr>browserActionQueue := q\<rparr>) = apiView s"
  "apiView (s\<lparr>isBrowserReady := b\<rparr>) = apiView s"
  "apiView (s\<lparr>isProcessingBrowserQueue := b\<rparr>) = apiView s"
  "apiView (s\<lparr>browserCalls := q\<rparr>) = apiView s"
  by (simp_all add: apiView_def)

lemma view_log [simp]:
  "browserView (log level message s) = browserView s"
  "apiView (log level message s) = apiView s"
  "browserView (emit name payload s) = browserView s"
  "apiView (emit name payload s) = apiView s"
  by (simp_all add: log_def emit_def)

subsection \<open>The browser queue\<close>

lemma browserView_browserLoop: "browserView (browserLoop s) = drainLoop (browserView s)"
  by (cases "browserActionQueue s")
     (simp_all add: browserLoop_def callBrowserAction_def, simp_all add: browserView_def)

lemma browserView_tryProcess: "browserView (tryProcessBrowserQueue s) = tryDrain (browserView s)"
proof (cases "\<not> isBrowserReady s \<or> isProcessingBrowserQueue s")
  case True
  then show ?thesis by (auto simp: tryProcessBrowserQueue_def browserView_def)
next
  case False
  then show ?thesis
    by (simp add: tryProcessBrowserQueue_def browserView_browserLoop) (simp add: browserView_def)
qed

lemma browserView_getActivities: "browserView (getActivities a s) = enqueue a (browserView s)"
  by (simp add: getActivities_def browserView_tryProcess) (simp add: browserView_def log_update)

lemma browserView_settled: "browserView (browserActionSettled outcome s) = settle (browserView s)"
proof (cases "isProcessingBrowserQueue s")
  case False
  then show ?thesis by (simp add: browserActionSettled_def browserView_def)
next
  case True
  have "browserView (browserActionSettled outcome s) = drainLoop (browserView s)"
    using True by (cases outcome) (simp_all add: browserActionSettled_def browserView_browserLoop)
  then show ?thesis using True by (simp add: browserView_def)
qed

lemma browserView_sessionReady: "browserView (sessionReady s) = openGate (browserView s)"
  by (simp add: sessionReady_def browserView_tryProcess) (simp add: browserView_def log_update)

lemma browserView_initialize:
  "browserView (pageContent isNotLoggedIn s) =
     (if initialized s = Launching \<and> \<not> isNotLoggedIn then openGate (browserView s) else browserView s)"
  "browserView (loadState idle s) =
     (if initialized s = AwaitingLoadState then openGate (browserView s) else browserView s)"
  "browserView (consentClick clicked s) = browserView s"
  "browserView (initializeFailed s) = browserView s"
  by (simp_all add: pageContent_def loadState_def consentClick_def initializeFailed_def
      browserView_sessionReady)

lemma browserView_callApiAction: "browserView (callApiAction a s) = browserView s"
  by (simp add: callApiAction_def Let_def split: sum.splits js_error.splits)

lemma browserView_apiLoop: "browserView (apiLoop s) = browserView s"
  by (simp add: apiLoop_def browserView_callApiAction split: list.splits)

lemma browserView_tryProcessApi: "browserView (tryProcessApiQueue s) = browserView s"
  by (simp add: tryProcessApiQueue_def browserView_apiLoop)

lemma browserView_coursesFetched: "browserView (coursesFetched outcome s) = browserView s"
  by (simp add: coursesFetched_def split: fetched.splits sum.splits js_error.splits prod.splits)

lemma browserView_apiSettled: "browserView (apiActionSettled outcome s) = browserView s"
  by (simp add: apiActionSettled_def browserView_apiLoop browserView_coursesFetched split: option.splits)

lemma browserView_getCourses: "browserView (getCourses a s) = browserView s"
  by (simp add: getCourses_def browserView_tryProcessApi)

lemma browserView_checkApiReady: "browserView (checkApiReady s) = browserView s"
  by (simp add: checkApiReady_def browserView_tryProcessApi)

lemma browserView_harvester:
  "browserView (requestHeaders header s) = browserView s"
  "browserView (routeContinued s) = browserView s"
  "browserView (ultraResponse parse body s) = browserView s"
  "browserView (handleActivityStreamResponse request response s) = browserView s"
  by (simp_all add: requestHeaders_def routeContinued_def ultraResponse_def
      handleActivityStreamResponse_def browserView_checkApiReady
      split: extracted.splits option.splits sum.splits js_error.splits bool.splits prod.splits)

lemma browserView_step:
  "browserView (step parse e s) =
     (case e of
        GetActivities a \<Rightarrow> enqueue a (browserView s)
      | BrowserActionSettled outcome \<Rightarrow> settle (browserView s)
      | PageContent isNotLoggedIn \<Rightarrow>
          if initialized s = Launching \<and> \<not> isNotLoggedIn then openGate (browserView s) else browserView s
      | LoadState idle \<Rightarrow>
          if initialized s = AwaitingLoadState then openGate (browserView s) else browserView s
      | _ \<Rightarrow> browserView s)"
  by (cases e)
     (simp_all add: browserView_getActivities browserView_settled browserView_initialize
        browserView_apiSettled browserView_getCourses browserView_harvester)

subsection \<open>The API queue\<close>

lemma apiView_callApiAction:
  "apiView (callApiAction a s) = (apiActionQueue s, isApiReady s, isProcessingApiQueue s, apiCalls s @ [a])"
  by (simp add: callApiAction_def Let_def split: sum.splits js_error.splits)
     (simp add: apiView_def log_update)

lemma apiView_apiLoop: "apiView (apiLoop s) = drainLoop (apiView s)"
  by (cases "apiActionQueue s")
     (simp_all add: apiLoop_def apiView_callApiAction, simp_all add: apiView_def)

lemma apiView_tryProcess: "apiView (tryProcessApiQueue s) = tryDrain (apiView s)"
proof (cases "\<not> isApiReady s \<or> isProcessingApiQueue s")
  case True
  then show ?thesis by (auto simp: tryProcessApiQueue_def apiView_def)
next
  case False
  then show ?thesis
    by (simp add: tryProcessApiQueue_def apiView_apiLoop) (simp add: apiView_def)
qed

lemma apiView_getCourses: "apiView (getCourses a s) = enqueue a (apiView s)"
  by (simp add: getCourses_def apiView_tryProcess) (simp add: apiView_def log_update)

lemma apiView_coursesFetched: "apiView (coursesFetched outcome s) = apiView s"
  by (simp add: coursesFetched_def split: fetched.splits sum.splits js_error.splits prod.splits)

lemma apiView_settled: "apiView (apiActionSettled outcome s) = settle (apiView s)"
proof (cases "isProcessingApiQueue s")
  case False
  then show ?thesis by (simp add: apiActionSettled_def apiView_def)
next
  case True
  have "apiView (apiActionSettled outcome s) = drainLoop (apiView s)"
    using True
    by (cases "apiActionThrew s") (simp_all add: apiActionSettled_def apiView_apiLoop apiView_coursesFetched)
  then show ?thesis using True by (simp add: apiView_def)
qed

lemma apiView_checkApiReady:
  "apiView (checkApiReady s) =
     (if \<not> isApiReady s \<and> cookieTruthy (cookie s) \<and> truthy (userData s)
      then openGate (apiView s) else apiView s)"
  by (simp add: checkApiReady_def apiView_tryProcess) (simp add: apiView_def log_update)

lemma apiView_callBrowserAction: "apiView (callBrowserAction a s) = apiView s"
  by (simp add: callBrowserAction_def)

lemma apiView_browserLoop: "apiView (browserLoop s) = apiView s"
  by (simp add: browserLoop_def apiView_callBrowserAction split: list.splits)

lemma apiView_tryProcessBrowser: "apiView (tryProcessBrowserQueue s) = apiView s"
  by (simp add: tryProcessBrowserQueue_def apiView_browserLoop)

lemma apiView_browser:
  "apiView (getActivities a s) = apiView s"
  "apiView (browserActionSettled outcome s) = apiView s"
  "apiView (sessionReady s) = apiView s"
  by (simp_all add: getActivities_def browserActionSettled_def sessionReady_def
      apiView_tryProcessBrowser apiView_browserLoop split: settled.splits)

lemma apiView_initialize:
  "apiView (pageContent isNotLoggedIn s) = apiView s"
  "apiView (loadState idle s) = apiView s"
  "apiView (consentClick clicked s) = apiView s"
  "apiView (initializeFailed s) = apiView s"
  by (simp_all add: pageContent_def loadState_def consentClick_def initializeFailed_def apiView_browser)

lemma apiView_other:
  "apiView (requestHeaders header s) = apiView s"
  "apiView (handleActivityStreamResponse request response s) = apiView s"
  by (simp_all add: requestHeaders_def handleActivityStreamResponse_def
      split: sum.splits js_error.splits bool.splits prod.splits)

lemma apiView_ultraResponse:
  "apiView (ultraResponse parse body s) = apiView s
   \<or> \<not> isApiReady s \<and> apiView (ultraResponse parse body s) = openGate (apiView s)"
  by (simp add: ultraResponse_def apiView_checkApiReady split: extracted.splits option.splits)

lemma apiView_step:
  "(\<exists>a. e = GetCourses a \<and> apiView (step parse e s) = enqueue a (apiView s))
   \<or> (\<exists>outcome. e = ApiActionSettled outcome \<and> apiView (step parse e s) = settle (apiView s))
   \<or> apiEnqueued [e] = [] \<and>
       (apiView (step parse e s) = apiView s
        \<or> \<not> isApiReady s \<and> apiView (step parse e s) = openGate (apiView s))"
  using apiView_ultraResponse[of parse _ s]
  by (cases e)
     (simp_all add: apiView_getCourses apiView_settled apiView_initialize apiView_browser
        apiView_other routeContinued_def apiView_checkApiReady)

lemma browserView_step_cases:
  "(\<exists>a. e = GetActivities a \<and> browserView (step parse e s) = enqueue a (browserView s))
   \<or> (\<exists>outcome. e = BrowserActionSettled outcome \<and> browserView (step parse e s) = settle (browserView s))
   \<or> browserEnqueued [e] = [] \<and>
       (browserView (step parse e s) = browserView s
        \<or> browserView (step parse e s) = openGate (browserView s))"
  by (cases e) (simp_all add: browserView_step del: step.simps)

lemma run_Nil [simp]: "run parse [] s = s"
  by (simp add: run_def)

lemma run_Cons [simp]: "run parse (e # es) s = run parse es (step parse e s)"
  by (simp add: run_def)

lemma run_snoc: "run parse (es @ [e]) s = step parse e (run parse es s)"
  by (simp add: run_def)

lemma browserEnqueued_append: "browserEnqueued (es @ es') = browserEnqueued es @ browserEnqueued es'"
  by (induction es rule: browserEnqueued.induct) simp_all

lemma apiEnqueued_append: "apiEnqueued (es @ es') = apiEnqueued es @ apiEnqueued es'"
  by (induction es rule: apiEnqueued.induct) simp_all

lemma views_constructor:
  "browserView (constructor now) = ([], False, False, [])"
  "apiView (constructor now) = ([], False, False, [])"
  by (simp_all add: constructor_def log_update browserView_def apiView_def)

lemma browser_reachable:
  "coordinated (browserView (run parse es (constructor now)))
   \<and> executed (browserView (run parse es (constructor now)))
       @ pending (browserView (run parse es (constructor now))) = browserEnqueued es"
proof (induction es rule: rev_induct)
  case Nil
  show ?case by (simp add: views_constructor coordinated_def coordinator_defs)
next
  case (snoc e es)
  let ?s = "run parse es (constructor now)"
  from browserView_step_cases[of e parse ?s] snoc show ?case
    by (auto simp: run_snoc browserEnqueued_append coordinated_enqueue coordinated_settle
        coordinated_openGate kept_enqueue kept_settle kept_openGate simp del: step.simps)
qed

lemma api_reachable:
  "coordinated (apiView (run parse es (constructor now)))
   \<and> executed (apiView (run parse es (constructor now)))
       @ pending (apiView (run parse es (constructor now))) = apiEnqueued es"
proof (induction es rule: rev_induct)
  case Nil
  show ?case by (simp add: views_constructor coordinated_def coordinator_defs)
next
  case (snoc e es)
  let ?s = "run parse es (constructor now)"
  from apiView_step[of e parse ?s] snoc show ?case
    by (auto simp: run_snoc apiEnqueued_append coordinated_enqueue coordinated_settle
        coordinated_openGate kept_enqueue kept_settle kept_openGate simp del: step.simps)
qed

lemma browser_settle_run:
  "browserView (run parse (map BrowserActionSettled outcomes) s) = (settle ^^ length outcomes) (browserView s)"
proof (induction outcomes arbitrary: s)
  case Nil
  then show ?case by simp
next
  case (Cons outcome outcomes)
  show ?case
    by (simp add: Cons.IH browserView_settled funpow_swap1)
qed

lemma api_settle_run:
  "apiView (run parse (map ApiActionSettled outcomes) s) = (settle ^^ length outcomes) (apiView s)"
proof (induction outcomes arbitrary: s)
  case Nil
  then show ?case by simp
next
  case (Cons outcome outcomes)
  show ?case
    by (simp add: Cons.IH apiView_settled funpow_swap1)
qed


lemma view_fields:
  "browserActionQueue s = pending (browserView s)" "isBrowserReady s = gate (browserView s)"
  "isProcessingBrowserQueue s = draining (browserView s)" "browserCalls s = executed (browserView s)"
  "apiActionQueue s = pending (apiView s)" "isApiReady s = gate (apiView s)"
  "isProcessingApiQueue s = draining (apiView s)" "apiCalls s = executed (apiView s)"
  by (simp_all add: browserView_def apiView_def coordinator_defs)

lemma gate_kept:
  "gate (enqueue a c) = gate c" "gate (settle c) = gate c" "gate (openGate c)"
  by (cases c; cases "pending c"; simp add: coordinator_defs)+

lemma closed_coordinator:
  assumes "coordinated c" and "\<not> gate c" and "executed c @ pending c = q"
  shows "c = (q, False, False, [])"
  using assms by (cases c) (auto simp: coordinated_def coordinator_defs)

lemma browser_gate_opening:
  assumes "\<not> isBrowserReady s" and "isBrowserReady (step parse g s)"
  shows "browserView (step parse g s) = openGate (browserView s)"
  using browserView_step_cases[of g parse s] assms
  by (auto simp: view_fields gate_kept simp del: step.simps)

lemma api_gate_opening:
  assumes "\<not> isApiReady s" and "isApiReady (step parse g s)"
  shows "apiView (step parse g s) = openGate (apiView s)"
  using apiView_step[of g parse s] assms
  by (auto simp: view_fields gate_kept simp del: step.simps)

text \<open>The definitions unfolded when a run is evaluated on given events.\<close>

lemmas engine_defs = emit_def log_def callBrowserAction_def browserLoop_def tryProcessBrowserQueue_def
  browserActionSettled_def getActivities_def callApiAction_def coursesFetched_def apiLoop_def
  tryProcessApiQueue_def apiActionSettled_def getCourses_def sessionReady_def pageContent_def
  consentClick_def loadState_def initializeFailed_def checkApiReady_def requestHeaders_def
  routeContinued_def ultraResponse_def handleActivityStreamResponse_def constructor_def
  cookieTruthy_def getProp_def getString_def split_def splitFrom_rules

text \<open>
  Claim C1.  Let \<open>s\<close> be the state after any list \<open>es\<close> of events since construction.
  The actions called so far are an initial part of the actions queued so far, in the
  order in which they were queued, for either queue.  While the gate of a queue is
  closed, none of its actions has been called and all of them are in the queue.  When an
  event then opens the gate, and each awaited action settles (fulfilled or failed), the
  actions called are exactly the queued ones, each once, in the order in which they were
  queued, the queue is empty and the drain has ended.
\<close>

theorem queued_actions_run_in_order:
  assumes "s = run parse es (constructor now)"
  shows "prefix (browserCalls s) (browserEnqueued es) \<and> prefix (apiCalls s) (apiEnqueued es)
       \<and> (\<not> isBrowserReady s \<longrightarrow> browserCalls s = [] \<and> browserActionQueue s = browserEnqueued es)
       \<and> (\<not> isBrowserReady s \<and> isBrowserReady (step parse g s)
            \<and> length outcomes = length (browserEnqueued es)
          \<longrightarrow> browserCalls (run parse (map BrowserActionSettled outcomes) (step parse g s))
                = browserEnqueued es
            \<and> browserActionQueue (run parse (map BrowserActionSettled outcomes) (step parse g s)) = []
            \<and> \<not> isProcessingBrowserQueue (run parse (map BrowserActionSettled outcomes) (step parse g s)))
       \<and> (\<not> isApiReady s \<longrightarrow> apiCalls s = [] \<and> apiActionQueue s = apiEnqueued es)
       \<and> (\<not> isApiReady s \<and> isApiReady (step parse h s)
            \<and> length fetches = length (apiEnqueued es)
          \<longrightarrow> apiCalls (run parse (map ApiActionSettled fetches) (step parse h s)) = apiEnqueued es
            \<and> apiActionQueue (run parse (map ApiActionSettled fetches) (step parse h s)) = []
            \<and> \<not> isProcessingApiQueue (run parse (map ApiActionSettled fetches) (step parse h s)))"
proof -
  have b: "browserView s = (browserEnqueued es, False, False, [])" if "\<not> isBrowserReady s"
    using browser_reachable[of parse es now] that assms
    by (intro closed_coordinator) (simp_all add: view_fields)
  have a: "apiView s = (apiEnqueued es, False, False, [])" if "\<not> isApiReady s"
    using api_reachable[of parse es now] that assms
    by (intro closed_coordinator) (simp_all add: view_fields)
  have b2: "browserView (run parse (map BrowserActionSettled outcomes) (step parse g s))
      = ([], True, False, browserEnqueued es)"
    if "\<not> isBrowserReady s" "isBrowserReady (step parse g s)" "length outcomes = length (browserEnqueued es)"
    using that b openGate_settle_drains[of "browserEnqueued es" False "[]"]
    by (simp add: browser_settle_run browser_gate_opening del: step.simps openGate.simps)
  have a2: "apiView (run parse (map ApiActionSettled fetches) (step parse h s))
      = ([], True, False, apiEnqueued es)"
    if "\<not> isApiReady s" "isApiReady (step parse h s)" "length fetches = length (apiEnqueued es)"
    using that a openGate_settle_drains[of "apiEnqueued es" False "[]"]
    by (simp add: api_settle_run api_gate_opening del: step.simps openGate.simps)
  show ?thesis
  proof (intro conjI impI)
    show "prefix (browserCalls s) (browserEnqueued es)"
      using browser_reachable[of parse es now] assms by (intro prefixI[of _ _ "browserActionQueue s"]) (simp add: view_fields)
    show "prefix (apiCalls s) (apiEnqueued es)"
      using api_reachable[of parse es now] assms by (intro prefixI[of _ _ "apiActionQueue s"]) (simp add: view_fields)
  next
    assume "\<not> isBrowserReady s"
    then show "browserCalls s = []" "browserActionQueue s = browserEnqueued es"
      using b by (simp_all add: view_fields coordinator_defs)
  next
    assume h: "\<not> isBrowserReady s \<and> isBrowserReady (step parse g s)
            \<and> length outcomes = length (browserEnqueued es)"
    show "browserCalls (run parse (map BrowserActionSettled outcomes) (step parse g s)) = browserEnqueued es"
      "browserActionQueue (run parse (map BrowserActionSettled outcomes) (step parse g s)) = []"
      "\<not> isProcessingBrowserQueue (run parse (map BrowserActionSettled outcomes) (step parse g s))"
      using b2 h by (simp_all add: view_fields coordinator_defs del: step.simps)
  next
    assume "\<not> isApiReady s"
    then show "apiCalls s = []" "apiActionQueue s = apiEnqueued es"
      using a by (simp_all add: view_fields coordinator_defs)
  next
    assume h: "\<not> isApiReady s \<and> isApiReady (step parse h s)
            \<and> length fetches = length (apiEnqueued es)"
    show "apiCalls (run parse (map ApiActionSettled fetches) (step parse h s)) = apiEnqueued es"
      "apiActionQueue (run parse (map ApiActionSettled fetches) (step parse h s)) = []"
      "\<not> isProcessingApiQueue (run parse (map ApiActionSettled fetches) (step parse h s))"
      using a2 h by (simp_all add: view_fields coordinator_defs del: step.simps)
  qed
qed

theorem queued_actions_run_in_order_witness:
  "browserCalls (run (map_of [(''{}'', JObj [])])
       [GetActivities 1, GetCourses 7, GetActivities 2, RequestHeaders (Some ''sid=1'')] (constructor 0)) = []
   \<and> browserCalls (run (map_of [(''{}'', JObj [])]) (map BrowserActionSettled [Failed ''x'', Fulfilled])
        (step (map_of [(''{}'', JObj [])]) (PageContent False)
          (run (map_of [(''{}'', JObj [])])
            [GetActivities 1, GetCourses 7, GetActivities 2, RequestHeaders (Some ''sid=1'')] (constructor 0))))
      = [1, 2]
   \<and> apiCalls (run (map_of [(''{}'', JObj [])]) (map ApiActionSettled [FetchFailed ''net''])
        (step (map_of [(''{}'', JObj [])]) (UltraResponse ''user: {},\<newline>'')
          (run (map_of [(''{}'', JObj [])])
            [GetActivities 1, GetCourses 7, GetActivities 2, RequestHeaders (Some ''sid=1'')] (constructor 0))))
      = [7]"
proof -
  let ?P = "map_of [(''{}'', JObj [])]"
  let ?es = "[GetActivities 1, GetCourses 7, GetActivities 2, RequestHeaders (Some ''sid=1'')]"
  let ?s = "run ?P ?es (constructor 0)"
  have b: "\<not> isBrowserReady ?s" "isBrowserReady (step ?P (PageContent False) ?s)"
    by (simp_all add: engine_defs)
  have a: "\<not> isApiReady ?s" "isApiReady (step ?P (UltraResponse ''user: {},\<newline>'') ?s)"
    by (simp_all add: engine_defs)
  have e: "browserEnqueued ?es = [1, 2]" "apiEnqueued ?es = [7]"
    by simp_all
  show ?thesis
    using queued_actions_run_in_order [where s = ?s and parse = ?P and es = ?es and now = 0
        and g = "PageContent False" and outcomes = "[Failed ''x'', Fulfilled]"
        and h = "UltraResponse ''user: {},\<newline>''" and fetches = "[FetchFailed ''net'']", OF refl] b a e
    by (simp del: run_Cons step.simps)
qed

lemma emitted_browserLoop: "set (emitted s) \<subseteq> set (emitted (browserLoop s))"
  by (cases "browserActionQueue s") (auto simp: browserLoop_def callBrowserAction_def log_update)

lemma emitted_apiLoop: "set (emitted s) \<subseteq> set (emitted (apiLoop s))"
  by (cases "apiActionQueue s")
     (auto simp: apiLoop_def callApiAction_def log_update Let_def split: sum.splits js_error.splits)

lemma settle_first:
  "draining c \<Longrightarrow> executed (settle c) = executed c @ take 1 (pending c)"
  by (cases c; cases "pending c") (simp_all add: coordinator_defs)

lemma settle_all:
  "draining c \<Longrightarrow> (settle ^^ Suc (length (pending c))) c = ([], gate c, False, executed c @ pending c)"
  using settle_drains[of "pending c" "gate c" "executed c"]
  by (cases c) (simp add: coordinator_defs del: funpow.simps)

text \<open>
  Claim C2.  While a drain awaits an action (the one at any position of the queue) and
  that action fails, the failure is logged as an \<^verbatim>\<open>ERROR\<close> notification with the
  message of the error, and the loop goes on: the next queued action, if there is one, is
  called in the same step, and when the awaited actions settle, in whatever way, all the
  actions that were queued behind the failed one have been called, in order.  For the
  API queue the awaited action fails when it threw while building its URL.
\<close>

theorem failed_action_does_not_halt_drain:
  "(isProcessingBrowserQueue s \<longrightarrow>
      (''log'', JObj [(''date'', JNum (int (dateNow s))), (''level'', JStr ''ERROR''),
                      (''message'', JStr (''Browser action failed: '' @ message))])
        \<in> set (emitted (step parse (BrowserActionSettled (Failed message)) s))
    \<and> browserCalls (step parse (BrowserActionSettled (Failed message)) s)
        = browserCalls s @ take 1 (browserActionQueue s)
    \<and> (length outcomes = length (browserActionQueue s) \<longrightarrow>
         browserCalls (run parse (map BrowserActionSettled (Failed message # outcomes)) s)
           = browserCalls s @ browserActionQueue s))
   \<and> (isProcessingApiQueue s \<and> apiActionThrew s = Some message \<longrightarrow>
      (''log'', JObj [(''date'', JNum (int (dateNow s))), (''level'', JStr ''ERROR''),
                      (''message'', JStr (''API action failed: '' @ message))])
        \<in> set (emitted (step parse (ApiActionSettled fetch) s))
    \<and> apiCalls (step parse (ApiActionSettled fetch) s) = apiCalls s @ take 1 (apiActionQueue s)
    \<and> (length fetches = length (apiActionQueue s) \<longrightarrow>
         apiCalls (run parse (map ApiActionSettled (fetch # fetches)) s)
           = apiCalls s @ apiActionQueue s))"
proof (intro conjI impI)
  assume p: "isProcessingBrowserQueue s"
  let ?l = "log ''ERROR'' (''Browser action failed: '' @ message) s"
  have "(''log'', JObj [(''date'', JNum (int (dateNow s))), (''level'', JStr ''ERROR''),
                      (''message'', JStr (''Browser action failed: '' @ message))]) \<in> set (emitted ?l)"
    by (simp add: log_update)
  then show "(''log'', JObj [(''date'', JNum (int (dateNow s))), (''level'', JStr ''ERROR''),
                      (''message'', JStr (''Browser action failed: '' @ message))])
        \<in> set (emitted (step parse (BrowserActionSettled (Failed message)) s))"
    using p emitted_browserLoop[of ?l] by (auto simp: browserActionSettled_def)
  show "browserCalls (step parse (BrowserActionSettled (Failed message)) s)
        = browserCalls s @ take 1 (browserActionQueue s)"
    using p settle_first[of "browserView s"] by (simp add: view_fields browserView_settled)
  assume "length outcomes = length (browserActionQueue s)"
  then show "browserCalls (run parse (map BrowserActionSettled (Failed message # outcomes)) s)
           = browserCalls s @ browserActionQueue s"
    using p settle_all[of "browserView s"] browser_settle_run[of parse "Failed message # outcomes" s]
    by (simp add: view_fields coordinator_defs del: funpow.simps run_Cons)
next
  assume p: "isProcessingApiQueue s \<and> apiActionThrew s = Some message"
  let ?l = "log ''ERROR'' (''API action failed: '' @ message) (s\<lparr>apiActionThrew := None\<rparr>)"
  have "(''log'', JObj [(''date'', JNum (int (dateNow s))), (''level'', JStr ''ERROR''),
                      (''message'', JStr (''API action failed: '' @ message))]) \<in> set (emitted ?l)"
    by (simp add: log_update)
  then show "(''log'', JObj [(''date'', JNum (int (dateNow s))), (''level'', JStr ''ERROR''),
                      (''message'', JStr (''API action failed: '' @ message))])
        \<in> set (emitted (step parse (ApiActionSettled fetch) s))"
    using p emitted_apiLoop[of ?l] by (auto simp: apiActionSettled_def)
  show "apiCalls (step parse (ApiActionSettled fetch) s) = apiCalls s @ take 1 (apiActionQueue s)"
    using p settle_first[of "apiView s"] by (simp add: view_fields apiView_settled)
  assume "length fetches = length (apiActionQueue s)"
  then show "apiCalls (run parse (map ApiActionSettled (fetch # fetches)) s)
           = apiCalls s @ apiActionQueue s"
    using p settle_all[of "apiView s"] api_settle_run[of parse "fetch # fetches" s]
    by (simp add: view_fields coordinator_defs del: funpow.simps run_Cons)
qed

theorem failed_action_does_not_halt_drain_witness:
  "isProcessingBrowserQueue (run (map_of []) [GetActivities 1, GetActivities 2, PageContent False] (constructor 0))
   \<and> browserCalls (run (map_of [])
        (map BrowserActionSettled [Failed ''Timeout 30000ms exceeded.'', Fulfilled])
        (run (map_of []) [GetActivities 1, GetActivities 2, PageContent False] (constructor 0))) = [1, 2]
   \<and> (''log'', JObj [(''date'', JNum 0), (''level'', JStr ''ERROR''),
          (''message'', JStr ''Browser action failed: Timeout 30000ms exceeded.'')])
       \<in> set (emitted (step (map_of []) (BrowserActionSettled (Failed ''Timeout 30000ms exceeded.''))
            (run (map_of []) [GetActivities 1, GetActivities 2, PageContent False] (constructor 0))))
   \<and> apiActionThrew (run (map_of [(''{}'', JObj []), (''null'', JNull)])
        [RequestHeaders (Some ''sid=1''), UltraResponse ''user: {},\<newline>'',
         UltraResponse ''user: null,\<newline>'', GetCourses 1, GetCourses 2] (constructor 0))
       = Some (''Cannot read properties of null (reading '' @ [CHR 0x27] @ ''id'' @ [CHR 0x27] @ '')'')
   \<and> apiCalls (run (map_of [(''{}'', JObj []), (''null'', JNull)])
        (map ApiActionSettled [FetchFailed ''unused'', ResponseNotOk 500])
        (run (map_of [(''{}'', JObj []), (''null'', JNull)])
          [RequestHeaders (Some ''sid=1''), UltraResponse ''user: {},\<newline>'',
           UltraResponse ''user: null,\<newline>'', GetCourses 1, GetCourses 2] (constructor 0))) = [1, 2]"
proof -
  let ?b = "run (map_of []) [GetActivities 1, GetActivities 2, PageContent False] (constructor 0)"
  let ?P = "map_of [(''{}'', JObj []), (''null'', JNull)]"
  let ?a = "run ?P [RequestHeaders (Some ''sid=1''), UltraResponse ''user: {},\<newline>'',
         UltraResponse ''user: null,\<newline>'', GetCourses 1, GetCourses 2] (constructor 0)"
  let ?m = "''Cannot read properties of null (reading '' @ [CHR 0x27] @ ''id'' @ [CHR 0x27] @ '')''"
  have b: "isProcessingBrowserQueue ?b" "browserActionQueue ?b = [2]" "browserCalls ?b = [1]"
    "dateNow ?b = 0"
    by (simp_all add: engine_defs)
  have a: "isProcessingApiQueue ?a" "apiActionThrew ?a = Some ?m" "apiActionQueue ?a = [2]"
    "apiCalls ?a = [1]"
    by (simp_all add: engine_defs)
  show ?thesis
    using failed_action_does_not_halt_drain [where s = ?b and message = "''Timeout 30000ms exceeded.''"
        and parse = "map_of []" and outcomes = "[Fulfilled]"]
      failed_action_does_not_halt_drain [where s = ?a and message = ?m and fetch = "FetchFailed ''unused''"
        and parse = ?P and fetches = "[ResponseNotOk 500]"]
      b a
    by (simp del: run_Cons step.simps)
qed

lemma enqueue_draining:
  "draining c \<Longrightarrow> enqueue a c = (pending c @ [a], gate c, True, executed c)"
  by (cases c) (simp add: coordinator_defs)

lemma draining_cleared:
  "draining c \<Longrightarrow> \<not> draining c' \<Longrightarrow>
     c' = enqueue a c \<or> c' = settle c \<or> c' = c \<or> c' = openGate c \<Longrightarrow> pending c' = []"
  by (cases c; cases "pending c") (auto simp: coordinator_defs)

lemma run_append: "run parse (es @ es') s = run parse es' (run parse es s)"
  by (simp add: run_def)

lemma browser_kept_run:
  "executed (browserView (run parse es s)) @ pending (browserView (run parse es s))
     = executed (browserView s) @ pending (browserView s) @ browserEnqueued es"
proof (induction es rule: rev_induct)
  case Nil
  show ?case by simp
next
  case (snoc e es)
  let ?s = "run parse es s"
  from browserView_step_cases[of e parse ?s] snoc show ?case
    by (auto simp: run_snoc browserEnqueued_append kept_enqueue kept_settle kept_openGate
        simp del: step.simps)
qed

lemma api_kept_run:
  "executed (apiView (run parse es s)) @ pending (apiView (run parse es s))
     = executed (apiView s) @ pending (apiView s) @ apiEnqueued es"
proof (induction es rule: rev_induct)
  case Nil
  show ?case by simp
next
  case (snoc e es)
  let ?s = "run parse es s"
  from apiView_step[of e parse ?s] snoc show ?case
    by (auto simp: run_snoc apiEnqueued_append kept_enqueue kept_settle kept_openGate
        simp del: step.simps)
qed

lemma settle_next:
  "draining c \<Longrightarrow> pending c = a # rest \<Longrightarrow> settle c = (rest, gate c, True, executed c @ [a])"
  by (cases c) (simp add: coordinator_defs)

lemma browser_drains_after:
  assumes "isProcessingBrowserQueue (run parse mid s)"
    and "length outcomes = Suc (length (browserActionQueue (run parse mid s)))"
  shows "browserView (run parse (mid @ map BrowserActionSettled outcomes) s)
     = ([], isBrowserReady (run parse mid s), False,
        browserCalls s @ browserActionQueue s @ browserEnqueued mid)"
proof -
  let ?m = "run parse mid s"
  have "browserView (run parse (map BrowserActionSettled outcomes) ?m)
      = (settle ^^ Suc (length (pending (browserView ?m)))) (browserView ?m)"
    using assms(2) by (simp add: browser_settle_run view_fields del: funpow.simps)
  also have "\<dots> = ([], gate (browserView ?m), False, executed (browserView ?m) @ pending (browserView ?m))"
    using assms(1) by (intro settle_all) (simp add: view_fields)
  finally show ?thesis
    using browser_kept_run[of parse mid s] by (simp add: run_append view_fields)
qed

lemma api_drains_after:
  assumes "isProcessingApiQueue (run parse mid s)"
    and "length fetches = Suc (length (apiActionQueue (run parse mid s)))"
  shows "apiView (run parse (mid @ map ApiActionSettled fetches) s)
     = ([], isApiReady (run parse mid s), False, apiCalls s @ apiActionQueue s @ apiEnqueued mid)"
proof -
  let ?m = "run parse mid s"
  have "apiView (run parse (map ApiActionSettled fetches) ?m)
      = (settle ^^ Suc (length (pending (apiView ?m)))) (apiView ?m)"
    using assms(2) by (simp add: api_settle_run view_fields del: funpow.simps)
  also have "\<dots> = ([], gate (apiView ?m), False, executed (apiView ?m) @ pending (apiView ?m))"
    using assms(1) by (intro settle_all) (simp add: view_fields)
  finally show ?thesis
    using api_kept_run[of parse mid s] by (simp add: run_append view_fields)
qed

text \<open>
  Claim C3.  In every state reached since construction, and for either queue: each
  action queued so far is either called already or still in the queue, in the order in
  which it was queued; an action queued while a drain is in progress is appended to the
  queue and the drain goes on; a step in which the draining flag is cleared leaves the
  queue empty; and whenever the gate is open and no drain is in progress the queue is
  empty.  The loop tests the queue again after each action: when the awaited action
  settles while the queue is not empty, its head is called and the drain goes on.  So no
  action that arrives during a drain is lost: after any events \<open>mid\<close> that leave the drain
  in progress, however many actions they queue, and once the awaited actions have
  settled, every action queued so far has been called, in order, the queue is empty and
  the draining flag is cleared.
\<close>

theorem no_action_stranded:
  assumes "s = run parse es (constructor now)"
  shows "browserCalls s @ browserActionQueue s = browserEnqueued es
       \<and> apiCalls s @ apiActionQueue s = apiEnqueued es
       \<and> (isBrowserReady s \<and> \<not> isProcessingBrowserQueue s \<longrightarrow> browserActionQueue s = [])
       \<and> (isApiReady s \<and> \<not> isProcessingApiQueue s \<longrightarrow> apiActionQueue s = [])
       \<and> (isProcessingBrowserQueue s \<longrightarrow>
            browserActionQueue (step parse (GetActivities a) s) = browserActionQueue s @ [a]
          \<and> isProcessingBrowserQueue (step parse (GetActivities a) s))
       \<and> (isProcessingApiQueue s \<longrightarrow>
            apiActionQueue (step parse (GetCourses a) s) = apiActionQueue s @ [a]
          \<and> isProcessingApiQueue (step parse (GetCourses a) s))
       \<and> (isProcessingBrowserQueue s \<and> \<not> isProcessingBrowserQueue (step parse e s)
            \<longrightarrow> browserActionQueue (step parse e s) = [])
       \<and> (isProcessingApiQueue s \<and> \<not> isProcessingApiQueue (step parse e s)
            \<longrightarrow> apiActionQueue (step parse e s) = [])
       \<and> (isProcessingBrowserQueue s \<and> browserActionQueue s = first # rest \<longrightarrow>
            browserCalls (step parse (BrowserActionSettled outcome) s) = browserCalls s @ [first]
          \<and> browserActionQueue (step parse (BrowserActionSettled outcome) s) = rest
          \<and> isProcessingBrowserQueue (step parse (BrowserActionSettled outcome) s))
       \<and> (isProcessingApiQueue s \<and> apiActionQueue s = first # rest \<longrightarrow>
            apiCalls (step parse (ApiActionSettled fetch) s) = apiCalls s @ [first]
          \<and> apiActionQueue (step parse (ApiActionSettled fetch) s) = rest
          \<and> isProcessingApiQueue (step parse (ApiActionSettled fetch) s))
       \<and> (isProcessingBrowserQueue (run parse mid s)
            \<and> length outcomes = Suc (length (browserActionQueue (run parse mid s))) \<longrightarrow>
            browserCalls (run parse (mid @ map BrowserActionSettled outcomes) s)
              = browserEnqueued (es @ mid)
          \<and> browserActionQueue (run parse (mid @ map BrowserActionSettled outcomes) s) = []
          \<and> \<not> isProcessingBrowserQueue (run parse (mid @ map BrowserActionSettled outcomes) s))
       \<and> (isProcessingApiQueue (run parse mid s)
            \<and> length fetches = Suc (length (apiActionQueue (run parse mid s))) \<longrightarrow>
            apiCalls (run parse (mid @ map ApiActionSettled fetches) s) = apiEnqueued (es @ mid)
          \<and> apiActionQueue (run parse (mid @ map ApiActionSettled fetches) s) = []
          \<and> \<not> isProcessingApiQueue (run parse (mid @ map ApiActionSettled fetches) s))"
proof (intro conjI impI)
  show kb: "browserCalls s @ browserActionQueue s = browserEnqueued es"
    using browser_reachable[of parse es now] assms by (simp add: view_fields)
  show ka: "apiCalls s @ apiActionQueue s = apiEnqueued es"
    using api_reachable[of parse es now] assms by (simp add: view_fields)
  show "browserActionQueue s = []" if "isBrowserReady s \<and> \<not> isProcessingBrowserQueue s"
    using browser_reachable[of parse es now] assms that by (simp add: view_fields coordinated_def)
  show "apiActionQueue s = []" if "isApiReady s \<and> \<not> isProcessingApiQueue s"
    using api_reachable[of parse es now] assms that by (simp add: view_fields coordinated_def)
  show "browserActionQueue (step parse (GetActivities a) s) = browserActionQueue s @ [a]"
    "isProcessingBrowserQueue (step parse (GetActivities a) s)" if "isProcessingBrowserQueue s"
    using that enqueue_draining[of "browserView s" a]
    by (simp_all add: view_fields browserView_getActivities) (simp_all add: coordinator_defs)
  show "apiActionQueue (step parse (GetCourses a) s) = apiActionQueue s @ [a]"
    "isProcessingApiQueue (step parse (GetCourses a) s)" if "isProcessingApiQueue s"
    using that enqueue_draining[of "apiView s" a]
    by (simp_all add: view_fields apiView_getCourses) (simp_all add: coordinator_defs)
  show "browserActionQueue (step parse e s) = []"
    if "isProcessingBrowserQueue s \<and> \<not> isProcessingBrowserQueue (step parse e s)"
    using that browserView_step_cases[of e parse s]
      draining_cleared[of "browserView s" "browserView (step parse e s)"]
    unfolding view_fields by blast
  show "apiActionQueue (step parse e s) = []"
    if "isProcessingApiQueue s \<and> \<not> isProcessingApiQueue (step parse e s)"
    using that apiView_step[of e parse s]
      draining_cleared[of "apiView s" "apiView (step parse e s)"]
    unfolding view_fields by blast
  show "browserCalls (step parse (BrowserActionSettled outcome) s) = browserCalls s @ [first]"
    "browserActionQueue (step parse (BrowserActionSettled outcome) s) = rest"
    "isProcessingBrowserQueue (step parse (BrowserActionSettled outcome) s)"
    if "isProcessingBrowserQueue s \<and> browserActionQueue s = first # rest"
    using that settle_next[of "browserView s" first rest]
    by (simp_all add: view_fields browserView_settled) (simp_all add: coordinator_defs)
  show "apiCalls (step parse (ApiActionSettled fetch) s) = apiCalls s @ [first]"
    "apiActionQueue (step parse (ApiActionSettled fetch) s) = rest"
    "isProcessingApiQueue (step parse (ApiActionSettled fetch) s)"
    if "isProcessingApiQueue s \<and> apiActionQueue s = first # rest"
    using that settle_next[of "apiView s" first rest]
    by (simp_all add: view_fields apiView_settled) (simp_all add: coordinator_defs)
  show "browserCalls (run parse (mid @ map BrowserActionSettled outcomes) s) = browserEnqueued (es @ mid)"
    "browserActionQueue (run parse (mid @ map BrowserActionSettled outcomes) s) = []"
    "\<not> isProcessingBrowserQueue (run parse (mid @ map BrowserActionSettled outcomes) s)"
    if "isProcessingBrowserQueue (run parse mid s)
            \<and> length outcomes = Suc (length (browserActionQueue (run parse mid s)))"
    using browser_drains_after[of parse mid s outcomes] that kb
    by (simp_all add: view_fields browserEnqueued_append) (simp_all add: coordinator_defs)
  show "apiCalls (run parse (mid @ map ApiActionSettled fetches) s) = apiEnqueued (es @ mid)"
    "apiActionQueue (run parse (mid @ map ApiActionSettled fetches) s) = []"
    "\<not> isProcessingApiQueue (run parse (mid @ map ApiActionSettled fetches) s)"
    if "isProcessingApiQueue (run parse mid s)
            \<and> length fetches = Suc (length (apiActionQueue (run parse mid s)))"
    using api_drains_after[of parse mid s fetches] that ka
    by (simp_all add: view_fields apiEnqueued_append) (simp_all add: coordinator_defs)
qed

theorem no_action_stranded_witness:
  "isProcessingBrowserQueue (run (map_of []) [GetActivities 1, PageContent False] (constructor 0))
   \<and> browserActionQueue (step (map_of []) (GetActivities 2)
        (run (map_of []) [GetActivities 1, PageContent False] (constructor 0))) = [2]
   \<and> browserActionQueue (step (map_of []) (BrowserActionSettled Fulfilled)
        (run (map_of []) [GetActivities 1, PageContent False] (constructor 0))) = []
   \<and> isProcessingApiQueue (run (map_of [(''{}'', JObj [])])
        [RequestHeaders (Some ''sid=1''), GetCourses 1, UltraResponse ''user: {},\<newline>''] (constructor 0))
   \<and> apiActionQueue (step (map_of [(''{}'', JObj [])]) (GetCourses 2)
        (run (map_of [(''{}'', JObj [])])
          [RequestHeaders (Some ''sid=1''), GetCourses 1, UltraResponse ''user: {},\<newline>''] (constructor 0))) = [2]
   \<and> apiActionQueue (step (map_of [(''{}'', JObj [])]) (ApiActionSettled (ResponseNotOk 401))
        (run (map_of [(''{}'', JObj [])])
          [RequestHeaders (Some ''sid=1''), GetCourses 1, UltraResponse ''user: {},\<newline>''] (constructor 0))) = []
   \<and> browserActionQueue (run (map_of [])
        [GetActivities 1, PageContent False, GetActivities 2, BrowserActionSettled Fulfilled,
         BrowserActionSettled Fulfilled] (constructor 0)) = []
   \<and> browserCalls (step (map_of []) (BrowserActionSettled (Failed ''x''))
        (run (map_of []) [GetActivities 1, PageContent False, GetActivities 2] (constructor 0))) = [1, 2]
   \<and> apiCalls (step (map_of [(''{}'', JObj [])]) (ApiActionSettled (ResponseNotOk 401))
        (run (map_of [(''{}'', JObj [])])
          [RequestHeaders (Some ''sid=1''), GetCourses 1, UltraResponse ''user: {},\<newline>'', GetCourses 2]
          (constructor 0))) = [1, 2]
   \<and> browserCalls (run (map_of [])
        ([GetActivities 2, BrowserActionSettled Fulfilled, GetActivities 3, GetActivities 4]
           @ map BrowserActionSettled [Fulfilled, Failed ''x'', Fulfilled])
        (run (map_of []) [GetActivities 1, PageContent False] (constructor 0))) = [1, 2, 3, 4]
   \<and> browserActionQueue (run (map_of [])
        ([GetActivities 2, BrowserActionSettled Fulfilled, GetActivities 3, GetActivities 4]
           @ map BrowserActionSettled [Fulfilled, Failed ''x'', Fulfilled])
        (run (map_of []) [GetActivities 1, PageContent False] (constructor 0))) = []
   \<and> apiCalls (run (map_of [(''{}'', JObj [])])
        ([GetCourses 2, GetCourses 3] @ map ApiActionSettled [ResponseNotOk 401, FetchFailed ''net'', JsonFailed ''bad''])
        (run (map_of [(''{}'', JObj [])])
          [RequestHeaders (Some ''sid=1''), GetCourses 1, UltraResponse ''user: {},\<newline>''] (constructor 0)))
       = [1, 2, 3]
   \<and> apiActionQueue (run (map_of [(''{}'', JObj [])])
        ([GetCourses 2, GetCourses 3] @ map ApiActionSettled [ResponseNotOk 401, FetchFailed ''net'', JsonFailed ''bad''])
        (run (map_of [(''{}'', JObj [])])
          [RequestHeaders (Some ''sid=1''), GetCourses 1, UltraResponse ''user: {},\<newline>''] (constructor 0)))
       = []"
proof -
  let ?b = "run (map_of []) [GetActivities 1, PageContent False] (constructor 0)"
  let ?b2 = "run (map_of []) [GetActivities 1, PageContent False, GetActivities 2] (constructor 0)"
  let ?P = "map_of [(''{}'', JObj [])]"
  let ?a = "run ?P [RequestHeaders (Some ''sid=1''), GetCourses 1, UltraResponse ''user: {},\<newline>'']
      (constructor 0)"
  let ?a2 = "run ?P [RequestHeaders (Some ''sid=1''), GetCourses 1, UltraResponse ''user: {},\<newline>'',
      GetCourses 2] (constructor 0)"
  let ?d = "run (map_of [])
        [GetActivities 1, PageContent False, GetActivities 2, BrowserActionSettled Fulfilled,
         BrowserActionSettled Fulfilled] (constructor 0)"
  let ?mb = "[GetActivities 2, BrowserActionSettled Fulfilled, GetActivities 3, GetActivities 4]"
  let ?ma = "[GetCourses 2, GetCourses 3]"
  have b: "isProcessingBrowserQueue ?b" "browserActionQueue ?b = []"
    "\<not> isProcessingBrowserQueue (step (map_of []) (BrowserActionSettled Fulfilled) ?b)"
    by (simp_all add: engine_defs)
  have b2: "isProcessingBrowserQueue ?b2" "browserActionQueue ?b2 = [2]" "browserCalls ?b2 = [1]"
    by (simp_all add: engine_defs)
  have a: "isProcessingApiQueue ?a" "apiActionQueue ?a = []"
    "\<not> isProcessingApiQueue (step ?P (ApiActionSettled (ResponseNotOk 401)) ?a)"
    by (simp_all add: engine_defs)
  have a2: "isProcessingApiQueue ?a2" "apiActionQueue ?a2 = [2]" "apiCalls ?a2 = [1]"
    by (simp_all add: engine_defs)
  have d: "isBrowserReady ?d" "\<not> isProcessingBrowserQueue ?d"
    by (simp_all add: engine_defs)
  have mb: "isProcessingBrowserQueue (run (map_of []) ?mb ?b)"
    "browserActionQueue (run (map_of []) ?mb ?b) = [3, 4]"
    by (simp_all add: engine_defs)
  have ma: "isProcessingApiQueue (run ?P ?ma ?a)" "apiActionQueue (run ?P ?ma ?a) = [2, 3]"
    by (simp_all add: engine_defs)
  have c1: "browserActionQueue (step (map_of []) (GetActivities 2) ?b) = [2]"
    "browserActionQueue (step (map_of []) (BrowserActionSettled Fulfilled) ?b) = []"
    using no_action_stranded [where s = ?b and parse = "map_of []"
        and es = "[GetActivities 1, PageContent False]" and now = 0 and a = 2
        and e = "BrowserActionSettled Fulfilled", OF refl] b
    by (simp_all del: run_Cons step.simps)
  have c2: "apiActionQueue (step ?P (GetCourses 2) ?a) = [2]"
    "apiActionQueue (step ?P (ApiActionSettled (ResponseNotOk 401)) ?a) = []"
    using no_action_stranded [where s = ?a and parse = ?P
        and es = "[RequestHeaders (Some ''sid=1''), GetCourses 1, UltraResponse ''user: {},\<newline>'']"
        and now = 0 and a = 2 and e = "ApiActionSettled (ResponseNotOk 401)", OF refl] a
    by (simp_all del: run_Cons step.simps)
  have c3: "browserActionQueue ?d = []"
    using no_action_stranded [where s = ?d and parse = "map_of []"
        and es = "[GetActivities 1, PageContent False, GetActivities 2, BrowserActionSettled Fulfilled,
         BrowserActionSettled Fulfilled]" and now = 0, OF refl] d
    by (simp del: run_Cons step.simps)
  have c4: "browserCalls (step (map_of []) (BrowserActionSettled (Failed ''x'')) ?b2) = [1, 2]"
    using no_action_stranded [where s = ?b2 and parse = "map_of []"
        and es = "[GetActivities 1, PageContent False, GetActivities 2]" and now = 0
        and first = 2 and rest = "[]" and outcome = "Failed ''x''", OF refl] b2
    by (simp del: run_Cons step.simps)
  have c5: "apiCalls (step ?P (ApiActionSettled (ResponseNotOk 401)) ?a2) = [1, 2]"
    using no_action_stranded [where s = ?a2 and parse = ?P
        and es = "[RequestHeaders (Some ''sid=1''), GetCourses 1, UltraResponse ''user: {},\<newline>'',
          GetCourses 2]" and now = 0
        and first = 2 and rest = "[]" and fetch = "ResponseNotOk 401", OF refl] a2
    by (simp del: run_Cons step.simps)
  have c6: "browserCalls (run (map_of []) (?mb @ map BrowserActionSettled [Fulfilled, Failed ''x'', Fulfilled]) ?b)
      = [1, 2, 3, 4]"
    "browserActionQueue (run (map_of []) (?mb @ map BrowserActionSettled [Fulfilled, Failed ''x'', Fulfilled]) ?b)
      = []"
    using no_action_stranded [where s = ?b and parse = "map_of []"
        and es = "[GetActivities 1, PageContent False]" and now = 0 and mid = ?mb
        and outcomes = "[Fulfilled, Failed ''x'', Fulfilled]", OF refl] mb
    by (simp_all add: browserEnqueued_append apiEnqueued_append del: run_Cons step.simps append.simps list.map)
  have c7: "apiCalls (run ?P (?ma @ map ApiActionSettled [ResponseNotOk 401, FetchFailed ''net'', JsonFailed ''bad'']) ?a)
      = [1, 2, 3]"
    "apiActionQueue (run ?P (?ma @ map ApiActionSettled [ResponseNotOk 401, FetchFailed ''net'', JsonFailed ''bad'']) ?a)
      = []"
    using no_action_stranded [where s = ?a and parse = ?P
        and es = "[RequestHeaders (Some ''sid=1''), GetCourses 1, UltraResponse ''user: {},\<newline>'']"
        and now = 0 and mid = ?ma
        and fetches = "[ResponseNotOk 401, FetchFailed ''net'', JsonFailed ''bad'']", OF refl] ma
    by (simp_all add: browserEnqueued_append apiEnqueued_append del: run_Cons step.simps append.simps list.map)
  show ?thesis
    using b(1) a(1) c1 c2 c3 c4 c5 c6 c7 by (intro conjI)
qed

section \<open>The API gate\<close>














section \<open>Log notifications\<close>

lemma logsWellFormed_update [simp]:
  "logsWellFormed (s\<lparr>console := co\<rparr>) = logsWellFormed s"
  "logsWellFormed (s\<lparr>initialized := ini\<rparr>) = logsWellFormed s"
  "logsWellFormed (s\<lparr>apiActionThrew := th\<rparr>) = logsWellFormed s"
  "logsWellFormed (s\<lparr>cookie := c\<rparr>) = logsWellFormed s"
  "logsWellFormed (s\<lparr>userData := u\<rparr>) = logsWellFormed s"
  "logsWellFormed (s\<lparr>dateNow := d\<rparr>) = logsWellFormed s"
  "logsWellFormed (s\<lparr>apiActionQueue := q\<rparr>) = logsWellFormed s"
  "logsWellFormed (s\<lparr>isApiReady := b\<rparr>) = logsWellFormed s"
  "logsWellFormed (s\<lparr>isProcessingApiQueue := b\<rparr>) = logsWellFormed s"
  "logsWellFormed (s\<lparr>apiCalls := q\<rparr>) = logsWellFormed s"
  "logsWellFormed (s\<lparr>browserActionQueue := q\<rparr>) = logsWellFormed s"
  "logsWellFormed (s\<lparr>isBrowserReady := b\<rparr>) = logsWellFormed s"
  "logsWellFormed (s\<lparr>isProcessingBrowserQueue := b\<rparr>) = logsWellFormed s"
  "logsWellFormed (s\<lparr>browserCalls := q\<rparr>) = logsWellFormed s"
  by (simp_all add: logsWellFormed_def)

lemma logPayload_log:
  assumes "level \<in> {''INFO'', ''DEBUG'', ''WARN'', ''ERROR''}"
  shows "logPayload (JObj [(''date'', JNum (int now)), (''level'', JStr level), (''message'', JStr message)])"
  unfolding logPayload_def using assms by blast

lemma logsWellFormed_snoc:
  "logsWellFormed (s\<lparr>emitted := emitted s @ [(name, payload)]\<rparr>) \<longleftrightarrow>
     logsWellFormed s \<and> (name = ''log'' \<longrightarrow> logPayload payload)"
  unfolding logsWellFormed_def by auto

lemma logsWellFormed_log [simp]:
  "level \<in> {''INFO'', ''DEBUG'', ''WARN'', ''ERROR''} \<Longrightarrow>
     logsWellFormed (log level message s) = logsWellFormed s"
  unfolding log_update logsWellFormed_snoc using logPayload_log by blast

lemma logsWellFormed_emit [simp]:
  "name \<noteq> ''log'' \<Longrightarrow> logsWellFormed (emit name payload s) = logsWellFormed s"
  unfolding emit_def logsWellFormed_snoc by simp

lemma logsWellFormed_browser [simp]:
  "logsWellFormed (browserLoop s) = logsWellFormed s"
  "logsWellFormed (tryProcessBrowserQueue s) = logsWellFormed s"
  "logsWellFormed (browserActionSettled outcome s) = logsWellFormed s"
  "logsWellFormed (getActivities a s) = logsWellFormed s"
  "logsWellFormed (sessionReady s) = logsWellFormed s"
  by (simp_all add: browserLoop_def callBrowserAction_def tryProcessBrowserQueue_def
      browserActionSettled_def getActivities_def sessionReady_def split: list.splits settled.splits)

lemma logsWellFormed_initialize [simp]:
  "logsWellFormed (pageContent isNotLoggedIn s) = logsWellFormed s"
  "logsWellFormed (consentClick clicked s) = logsWellFormed s"
  "logsWellFormed (loadState idle s) = logsWellFormed s"
  "logsWellFormed (initializeFailed s) = logsWellFormed s"
  by (simp_all add: pageContent_def consentClick_def loadState_def initializeFailed_def)

lemma logsWellFormed_callApiAction [simp]: "logsWellFormed (callApiAction a s) = logsWellFormed s"
  by (simp add: callApiAction_def Let_def split: sum.splits js_error.splits)

lemma logsWellFormed_coursesFetched [simp]: "logsWellFormed (coursesFetched outcome s) = logsWellFormed s"
  by (simp add: coursesFetched_def split: fetched.splits sum.splits js_error.splits prod.splits)

lemma logsWellFormed_api [simp]:
  "logsWellFormed (apiLoop s) = logsWellFormed s"
  "logsWellFormed (tryProcessApiQueue s) = logsWellFormed s"
  "logsWellFormed (apiActionSettled outcome s) = logsWellFormed s"
  "logsWellFormed (getCourses a s) = logsWellFormed s"
  "logsWellFormed (checkApiReady s) = logsWellFormed s"
  by (simp_all add: apiLoop_def tryProcessApiQueue_def apiActionSettled_def getCourses_def
      checkApiReady_def split: list.splits option.splits)

lemma logsWellFormed_harvester [simp]:
  "logsWellFormed (requestHeaders header s) = logsWellFormed s"
  "logsWellFormed (routeContinued s) = logsWellFormed s"
  "logsWellFormed (ultraResponse parse body s) = logsWellFormed s"
  "logsWellFormed (handleActivityStreamResponse request response s) = logsWellFormed s"
  by (simp_all add: requestHeaders_def routeContinued_def ultraResponse_def
      handleActivityStreamResponse_def
      split: extracted.splits option.splits sum.splits js_error.splits bool.splits prod.splits)

lemma logsWellFormed_step: "logsWellFormed (step parse e s) = logsWellFormed s"
  by (cases e) simp_all

lemma logsWellFormed_run: "logsWellFormed (run parse es (constructor now))"
proof (induction es rule: rev_induct)
  case Nil
  show ?case by (simp add: constructor_def) (simp add: logsWellFormed_def)
next
  case (snoc e es)
  then show ?case by (simp add: run_snoc logsWellFormed_step del: step.simps)
qed

text \<open>
  Claim C6, as amended.  Every \<^verbatim>\<open>log\<close> notification emitted in a run of the engine
  carries an object with exactly the members \<^verbatim>\<open>date\<close> (a number of milliseconds),
  \<^verbatim>\<open>level\<close> (one of \<^verbatim>\<open>INFO\<close>, \<^verbatim>\<open>DEBUG\<close>, \<^verbatim>\<open>WARN\<close>, \<^verbatim>\<open>ERROR\<close>) and
  \<^verbatim>\<open>message\<close> (a string).
\<close>

theorem log_payload_shape:
  assumes "(''log'', payload) \<in> set (emitted (run parse es (constructor now)))"
  shows "\<exists>date level message.
           payload = JObj [(''date'', JNum (int date)), (''level'', JStr level), (''message'', JStr message)]
           \<and> level \<in> {''INFO'', ''DEBUG'', ''WARN'', ''ERROR''}"
proof -
  have "\<forall>n\<in>set (emitted (run parse es (constructor now))). fst n = ''log'' \<longrightarrow> logPayload (snd n)"
    using logsWellFormed_run[of parse es now] unfolding logsWellFormed_def .
  then have "logPayload payload"
    using assms by fastforce
  then show ?thesis
    unfolding logPayload_def .
qed

theorem log_payload_shape_witness:
  "(''log'', JObj [(''date'', JNum 1700000000250), (''level'', JStr ''DEBUG''),
       (''message'', JStr ''Queueing API action: getCourses'')])
     \<in> set (emitted (run (map_of []) [Tick 250, GetCourses 1] (constructor 1700000000000)))
   \<and> (\<exists>date level message.
         JObj [(''date'', JNum 1700000000250), (''level'', JStr ''DEBUG''),
               (''message'', JStr ''Queueing API action: getCourses'')]
           = JObj [(''date'', JNum (int date)), (''level'', JStr level), (''message'', JStr message)]
         \<and> level \<in> {''INFO'', ''DEBUG'', ''WARN'', ''ERROR''})"
proof -
  have m: "(''log'', JObj [(''date'', JNum 1700000000250), (''level'', JStr ''DEBUG''),
       (''message'', JStr ''Queueing API action: getCourses'')])
     \<in> set (emitted (run (map_of []) [Tick 250, GetCourses 1] (constructor 1700000000000)))"
    by (simp add: engine_defs)
  from m log_payload_shape [OF m] show ?thesis
    by blast
qed

text \<open>
  Claim C6 as stated fails: the payload of the first notification has no member
  \<^verbatim>\<open>timestamp\<close>; the time is the member \<^verbatim>\<open>date\<close>.
\<close>

theorem log_payload_timestamp_counterexample:
  "emitted (constructor 1700000000000)
     = [(''log'', JObj [(''date'', JNum 1700000000000), (''level'', JStr ''INFO''),
          (''message'', JStr ''Engine initialization started.'')])]
   \<and> propOf (snd (hd (emitted (constructor 1700000000000)))) ''timestamp'' = JUndefined"
  by (simp add: engine_defs)

end
